theory Spec2Isabelle
  imports Main
begin

section \<open>Strings and errors\<close>

text \<open>
  A JavaScript string is a sequence of UTF-16 code units. The model writes it as a
  \<^typ>\<open>string\<close>, one \<^typ>\<open>char\<close> for each code unit, so it ranges over the strings whose
  code units are below 256; \<open>length\<close> is the source's \<open>.length\<close> and \<open>take\<close>/\<open>drop\<close>
  are its \<open>slice\<close>. Payloads of type \<open>unknown\<close> (tool arguments, tool results, tool
  requests) are opaque and written as strings too.
\<close>

type_synonym json = string

text \<open>\<open>x || ""\<close> on a value that may be \<open>undefined\<close>: the empty string for \<open>undefined\<close>.\<close>

definition or_empty :: "string option \<Rightarrow> string" where
  "or_empty x = (case x of None \<Rightarrow> [] | Some v \<Rightarrow> v)"

text \<open>\<open>a || b\<close> on strings: the empty string is falsy.\<close>

definition or_else :: "string \<Rightarrow> string \<Rightarrow> string" where
  "or_else a b = (if a = [] then b else a)"

text \<open>
  \<open>String.prototype.trim\<close> removes white space and line terminators at both ends. Below
  256 these are the code units 9 to 13, 32 and 160.
\<close>

definition js_whitespace :: "char \<Rightarrow> bool" where
  "js_whitespace c = (of_char c \<in> {9, 10, 11, 12, 13, 32, 160 :: nat})"

definition trim :: "string \<Rightarrow> string" where
  "trim s = rev (dropWhile js_whitespace (rev (dropWhile js_whitespace s)))"

text \<open>A JavaScript \<open>Error\<close> is identified by its message.\<close>

datatype js_error = Error string

text \<open>
  Three message literals of the source are Chinese text, outside the range of
  \<^typ>\<open>char\<close>. They are kept as named constants, with an English gloss as their value:
  the default message of a \<open>session.error\<close> event (U+672A U+77E5 U+9519 U+8BEF), the
  default error of a failed tool (U+5DE5 U+5177 U+6267 U+884C U+5931 U+8D25), and the
  message of the timeout error (U+6D88 U+606F U+54CD U+5E94 U+8D85 U+65F6).
\<close>

definition UNKNOWN_ERROR_MESSAGE :: string where
  "UNKNOWN_ERROR_MESSAGE = ''unknown error''"

definition TOOL_FAILED_MESSAGE :: string where
  "TOOL_FAILED_MESSAGE = ''tool execution failed''"

definition TIMEOUT_MESSAGE :: string where
  "TIMEOUT_MESSAGE = ''message response timed out''"

section \<open>Message history cache\<close>

record cache_entry =
  role :: string
  content :: string

type_synonym history_cache = "string \<rightharpoonup> cache_entry list"

definition MAX_MESSAGES_PER_SESSION :: nat where
  "MAX_MESSAGES_PER_SESSION = 100"

text \<open>\<open>messageHistoryCache.get(sessionId)\<close>, read as the empty list when the key is absent.\<close>

definition cached :: "history_cache \<Rightarrow> string \<Rightarrow> cache_entry list" where
  "cached cache sessionId = (case cache sessionId of None \<Rightarrow> [] | Some ms \<Rightarrow> ms)"

text \<open>
  \<open>addMessageToCache\<close>: create the session's list when absent, push the entry, and when the
  list is longer than the bound, \<open>splice(0, excess)\<close> removes its first \<open>excess\<close> entries.
\<close>

definition addMessageToCache ::
  "history_cache \<Rightarrow> string \<Rightarrow> string \<Rightarrow> string \<Rightarrow> history_cache" where
  "addMessageToCache cache sessionId r c =
     (let cache1 = (if cache sessionId = None then cache(sessionId \<mapsto> []) else cache);
          messages = cached cache1 sessionId @ [\<lparr>role = r, content = c\<rparr>];
          messages' = (if length messages > MAX_MESSAGES_PER_SESSION
                       then drop (length messages - MAX_MESSAGES_PER_SESSION) messages
                       else messages)
      in cache1(sessionId \<mapsto> messages'))"

text \<open>A sequence of append operations, each a session id, a role and a content.\<close>

fun append_all :: "history_cache \<Rightarrow> (string \<times> string \<times> string) list \<Rightarrow> history_cache" where
  "append_all cache [] = cache"
| "append_all cache ((sessionId, r, c) # ops) =
     append_all (addMessageToCache cache sessionId r c) ops"

section \<open>Module state and session deletion\<close>

text \<open>
  A \<open>CopilotSession\<close> handle of the runtime. What its \<open>destroy()\<close> does is the runtime's
  business; the handle records the error it throws, if any.
\<close>

record copilot_session =
  session_id :: string
  destroy_error :: "js_error option"

text \<open>
  The module-level variables of the source: the client singleton (\<open>clientInstance\<close> is
  \<open>null\<close> or an instance), and the three maps keyed by session id.
\<close>

record module_state =
  clientInstance :: bool
  activeSessions :: "string \<rightharpoonup> copilot_session"
  sessionAgentMap :: "string \<rightharpoonup> string"
  messageHistoryCache :: history_cache

text \<open>
  \<open>getClient\<close>: an existing instance is returned as it is; otherwise a new one is stored
  in \<open>clientInstance\<close> and started, and \<open>start()\<close> may throw (\<open>start_error\<close>).
\<close>

definition getClient :: "js_error option \<Rightarrow> module_state \<Rightarrow> js_error option \<times> module_state" where
  "getClient start_error m =
     (if \<not> clientInstance m then (start_error, m\<lparr>clientInstance := True\<rparr>)
      else (None, m))"

text \<open>
  \<open>deleteSession\<close>. The result is the error the returned promise rejects with, if any,
  and the module state left behind. \<open>start_error\<close> and \<open>delete_error\<close> are what
  \<open>clientInstance.start()\<close> and \<open>client.deleteSession(sessionId)\<close> throw.
\<close>

definition deleteSession ::
  "js_error option \<Rightarrow> js_error option \<Rightarrow> string \<Rightarrow> module_state
     \<Rightarrow> js_error option \<times> module_state" where
  "deleteSession start_error delete_error sessionId m =
     (case getClient start_error m of
        (Some e, m0) \<Rightarrow> (Some e, m0)
      | (None, m0) \<Rightarrow>
          let m1 = (case activeSessions m0 sessionId of
                      None \<Rightarrow> m0
                    | Some session \<Rightarrow>
                        (case destroy_error session of
                           Some e \<Rightarrow> m0\<lparr>activeSessions := (activeSessions m0)(sessionId := None)\<rparr>
                         | None \<Rightarrow> m0\<lparr>activeSessions := (activeSessions m0)(sessionId := None)\<rparr>));
              m2 = m1\<lparr>messageHistoryCache := (messageHistoryCache m1)(sessionId := None)\<rparr>;
              m3 = m2\<lparr>sessionAgentMap := (sessionAgentMap m2)(sessionId := None)\<rparr>
          in (delete_error, m3))"

section \<open>User-input requests\<close>

record user_input_request =
  question :: string
  choices :: "string list option"
  allowFreeform :: "bool option"

record user_input_response =
  answer :: string
  wasFreeform :: bool

text \<open>
  A registered handler returns a promise; \<open>None\<close> stands for a promise that never
  settles.
\<close>

type_synonym user_input_handler = "user_input_request \<Rightarrow> user_input_response option"

text \<open>
  The \<open>onUserInputRequest\<close> hook that \<open>createSession\<close> passes to the runtime, read after
  \<open>createSession\<close> has set \<open>id = sessionId || session.sessionId\<close>. The handler is looked up
  under \<open>id || sessionId || ""\<close>; \<open>sessionId\<close> is the optional parameter, \<open>runtimeId\<close> is
  \<open>session.sessionId\<close>.
\<close>

definition onUserInputRequest_create ::
  "(string \<rightharpoonup> user_input_handler) \<Rightarrow> string option \<Rightarrow> string
     \<Rightarrow> user_input_request \<Rightarrow> user_input_response option" where
  "onUserInputRequest_create userInputHandlers sessionId runtimeId request =
     (let id = or_else (or_empty sessionId) runtimeId in
      case userInputHandlers (or_else id (or_else (or_empty sessionId) [])) of
        Some handler \<Rightarrow> handler request
      | None \<Rightarrow> Some \<lparr>answer = [], wasFreeform = True\<rparr>)"

text \<open>The hook that \<open>getOrCreateSession\<close> passes when it resumes a session.\<close>

definition onUserInputRequest_resume ::
  "(string \<rightharpoonup> user_input_handler) \<Rightarrow> string
     \<Rightarrow> user_input_request \<Rightarrow> user_input_response option" where
  "onUserInputRequest_resume userInputHandlers sessionId request =
     (case userInputHandlers sessionId of
        Some handler \<Rightarrow> handler request
      | None \<Rightarrow> Some \<lparr>answer = [], wasFreeform = True\<rparr>)"

section \<open>One exchange: the closure of \<open>sendMessage\<close>\<close>

text \<open>
  The callbacks of \<open>SendMessageOptions\<close>. The exchange logs each call in the order it is
  made (the model takes every callback as supplied, so \<open>onX?.(...)\<close> is a call). A tool
  error is forwarded to \<open>onToolResult\<close> as the object \<open>{ error: ... }\<close>.
\<close>

datatype tool_result = ToolResult json | ToolFailure string

datatype callback =
    OnDelta string
  | OnReasoningDelta string
  | OnToolCall string json string
  | OnToolResult string tool_result string
  | OnComplete string
  | OnError js_error

text \<open>
  The local variables of one \<open>sendMessage\<close> call, the timers it has pending and the
  module state it writes to:
  \<^item> \<open>timeoutArmed\<close>: the timer of \<open>DEFAULT_MESSAGE_TIMEOUT\<close> is set and has neither fired
    nor been cleared;
  \<^item> \<open>listening\<close>: the handlers pushed to \<open>unsubscribers\<close> are still attached to the session;
  \<^item> \<open>cleanupScheduled\<close>: the \<open>setTimeout(() => cleanup(), 100)\<close> of \<open>finalize\<close> is pending;
  \<^item> \<open>fallbacks\<close>: the \<open>streamFallback\<close> calls suspended at their \<open>await\<close>, each with its
    content and its loop index \<open>i\<close>.
\<close>

record exchange =
  sessionId :: string
  fullContent :: string
  hasDelta :: bool
  completed :: bool
  pendingToolCalls :: int
  toolNameByCallId :: "string \<rightharpoonup> string"
  cleanupCalled :: bool
  timeoutArmed :: bool
  listening :: bool
  cleanupScheduled :: bool
  fallbacks :: "(string \<times> nat) list"
  globals :: module_state
  calls :: "callback list"

definition emit :: "callback \<Rightarrow> exchange \<Rightarrow> exchange" where
  "emit cb s = s\<lparr>calls := calls s @ [cb]\<rparr>"

definition cache_of :: "exchange \<Rightarrow> string \<Rightarrow> cache_entry list" where
  "cache_of s sid = cached (messageHistoryCache (globals s)) sid"

text \<open>\<open>cleanup\<close>: once only; clears the timeout timer and detaches every listener.\<close>

definition cleanup :: "exchange \<Rightarrow> exchange" where
  "cleanup s =
     (if cleanupCalled s then s
      else s\<lparr>cleanupCalled := True, timeoutArmed := False, listening := False\<rparr>)"

definition finalize :: "string \<Rightarrow> exchange \<Rightarrow> exchange" where
  "finalize c s =
     (if completed s then s
      else
        let s1 = s\<lparr>completed := True\<rparr>;
            s2 = (if length (trim c) > 0
                  then s1\<lparr>globals := (globals s1)\<lparr>messageHistoryCache :=
                          addMessageToCache (messageHistoryCache (globals s1))
                            (sessionId s1) ''assistant'' c\<rparr>\<rparr>
                  else s1);
            s3 = emit (OnComplete c) s2
        in s3\<lparr>cleanupScheduled := True\<rparr>)"

definition chunkSize :: nat where
  "chunkSize = 24"

text \<open>\<open>content.slice(i, j)\<close> for \<open>0 \<le> i \<le> j\<close>.\<close>

definition slice :: "string \<Rightarrow> nat \<Rightarrow> nat \<Rightarrow> string" where
  "slice c i j = take (j - i) (drop i c)"

text \<open>
  \<open>streamFallback(content).then(() => finalize(fullContent))\<close>, up to its first \<open>await\<close>:
  the first chunk is delivered at once and the call is suspended on its 15 ms timer. On
  empty content the loop body never runs and \<open>finalize\<close> follows directly.
\<close>

definition streamFallback :: "string \<Rightarrow> exchange \<Rightarrow> exchange" where
  "streamFallback c s =
     (if 0 < length c
      then (emit (OnDelta (slice c 0 (0 + chunkSize))) s)\<lparr>fallbacks := fallbacks s @ [(c, 0)]\<rparr>
      else finalize (fullContent s) s)"

text \<open>
  The 15 ms timer of the \<open>k\<close>-th suspended \<open>streamFallback\<close> fires: \<open>i += chunkSize\<close>, then
  either the next chunk is delivered and the call is suspended again, or the loop ends and
  \<open>finalize(fullContent)\<close> runs with the buffer as it is then.
\<close>

definition on_fallback_timer :: "nat \<Rightarrow> exchange \<Rightarrow> exchange" where
  "on_fallback_timer k s =
     (case fallbacks s ! k of
        (c, i) \<Rightarrow>
          let i' = i + chunkSize in
          if i' < length c
          then (emit (OnDelta (slice c i' (i' + chunkSize))) s)
                 \<lparr>fallbacks := (fallbacks s)[k := (c, i')]\<rparr>
          else
            let s1 = s\<lparr>fallbacks := take k (fallbacks s) @ drop (Suc k) (fallbacks s)\<rparr>
            in finalize (fullContent s1) s1)"

subsection \<open>Event handlers\<close>

definition on_message_delta :: "string option \<Rightarrow> exchange \<Rightarrow> exchange" where
  "on_message_delta deltaContent s =
     (let delta = or_empty deltaContent;
          s1 = (if length delta > 0 then s\<lparr>hasDelta := True\<rparr> else s);
          s2 = s1\<lparr>fullContent := fullContent s1 @ delta\<rparr>
      in emit (OnDelta delta) s2)"

definition on_reasoning_delta :: "string option \<Rightarrow> exchange \<Rightarrow> exchange" where
  "on_reasoning_delta deltaContent s =
     (let delta = or_empty deltaContent
      in if length delta > 0 then emit (OnReasoningDelta delta) s else s)"

definition on_tool_start :: "string \<Rightarrow> string \<Rightarrow> json \<Rightarrow> exchange \<Rightarrow> exchange" where
  "on_tool_start toolCallId toolName arguments s =
     (let s1 = s\<lparr>pendingToolCalls := pendingToolCalls s + 1\<rparr>;
          s2 = s1\<lparr>toolNameByCallId := (toolNameByCallId s1)(toolCallId \<mapsto> toolName)\<rparr>
      in emit (OnToolCall toolName arguments toolCallId) s2)"

text \<open>\<open>toolNameByCallId.get(toolCallId) || toolCallId\<close>\<close>

definition display_name :: "(string \<rightharpoonup> string) \<Rightarrow> string \<Rightarrow> string" where
  "display_name m toolCallId = or_else (or_empty (m toolCallId)) toolCallId"

definition on_tool_complete :: "string \<Rightarrow> json \<Rightarrow> exchange \<Rightarrow> exchange" where
  "on_tool_complete toolCallId result s =
     (let s1 = s\<lparr>pendingToolCalls := max 0 (pendingToolCalls s - 1)\<rparr>;
          name = display_name (toolNameByCallId s1) toolCallId
      in emit (OnToolResult name (ToolResult result) toolCallId) s1)"

definition on_tool_error :: "string \<Rightarrow> string option \<Rightarrow> exchange \<Rightarrow> exchange" where
  "on_tool_error toolCallId err s =
     (let s1 = s\<lparr>pendingToolCalls := max 0 (pendingToolCalls s - 1)\<rparr>;
          name = display_name (toolNameByCallId s1) toolCallId
      in emit (OnToolResult name (ToolFailure (or_else (or_empty err) TOOL_FAILED_MESSAGE))
                 toolCallId) s1)"

definition on_assistant_message :: "string option \<Rightarrow> json list option \<Rightarrow> exchange \<Rightarrow> exchange" where
  "on_assistant_message msg toolRequests s =
     (let c = or_empty msg in
      if (case toolRequests of None \<Rightarrow> False | Some rs \<Rightarrow> length rs > 0) \<and> length c = 0
      then s
      else if pendingToolCalls s > 0
      then (if length c > 0 \<and> length (fullContent s) = 0 then s\<lparr>fullContent := c\<rparr> else s)
      else if \<not> hasDelta s \<and> length c > 0
      then streamFallback c (s\<lparr>fullContent := c\<rparr>)
      else
        let s1 = (if length c > 0 \<and> length (fullContent s) = 0 then s\<lparr>fullContent := c\<rparr> else s)
        in if length c > 0 \<or> length (fullContent s1) > 0
           then finalize (or_else (fullContent s1) c) s1
           else s1)"

definition on_session_error :: "string option \<Rightarrow> exchange \<Rightarrow> exchange" where
  "on_session_error msg s =
     cleanup (emit (OnError (Error (or_else (or_empty msg) UNKNOWN_ERROR_MESSAGE))) s)"

definition on_session_idle :: "exchange \<Rightarrow> exchange" where
  "on_session_idle s =
     (if \<not> completed s \<and> pendingToolCalls s = 0 then finalize (fullContent s) s else s)"

subsection \<open>Timers\<close>

text \<open>
  The callback of the timeout timer. With an empty buffer it calls \<open>cleanup()\<close> and rejects
  \<open>completionPromise\<close>, on which \<open>sendMessage\<close> is waiting: the \<open>catch\<close> block runs
  \<open>cleanup()\<close> again and hands the error to \<open>onError\<close>. The polling interval
  \<open>checkComplete\<close> only resolves the promise and is left out.
\<close>

definition on_timeout :: "exchange \<Rightarrow> exchange" where
  "on_timeout s =
     (let s0 = s\<lparr>timeoutArmed := False\<rparr> in
      if \<not> completed s0
      then (if length (fullContent s0) > 0
            then finalize (fullContent s0) s0
            else emit (OnError (Error TIMEOUT_MESSAGE)) (cleanup (cleanup s0)))
      else s0)"

definition on_cleanup_timer :: "exchange \<Rightarrow> exchange" where
  "on_cleanup_timer s = cleanup (s\<lparr>cleanupScheduled := False\<rparr>)"

subsection \<open>The event loop\<close>

datatype runtime_event =
    MessageDelta "string option"
  | ReasoningDelta "string option"
  | ToolExecutionStart string string json
  | ToolExecutionComplete string json
  | ToolExecutionError string "string option"
  | AssistantMessage "string option" "json list option"
  | SessionError "string option"
  | SessionIdle

datatype timer = TimeoutTimer | CleanupTimer | FallbackTimer nat

datatype occurrence = Runtime runtime_event | Fires timer

fun handle :: "runtime_event \<Rightarrow> exchange \<Rightarrow> exchange" where
  "handle (MessageDelta d) s = on_message_delta d s"
| "handle (ReasoningDelta d) s = on_reasoning_delta d s"
| "handle (ToolExecutionStart toolCallId toolName arguments) s =
     on_tool_start toolCallId toolName arguments s"
| "handle (ToolExecutionComplete toolCallId result) s = on_tool_complete toolCallId result s"
| "handle (ToolExecutionError toolCallId err) s = on_tool_error toolCallId err s"
| "handle (AssistantMessage msg toolRequests) s = on_assistant_message msg toolRequests s"
| "handle (SessionError msg) s = on_session_error msg s"
| "handle SessionIdle s = on_session_idle s"

text \<open>
  One turn of the single-threaded event loop: a runtime event reaches its handler while
  the listeners are attached (the functions in \<open>unsubscribers\<close> are taken to detach them),
  a timer runs its callback while it is pending. A timer that \<open>cleanup\<close> does not clear,
  the one of a suspended \<open>streamFallback\<close> among them, still fires after \<open>cleanup\<close>.
\<close>

fun step :: "occurrence \<Rightarrow> exchange \<Rightarrow> exchange" where
  "step (Runtime e) s = (if listening s then handle e s else s)"
| "step (Fires TimeoutTimer) s = (if timeoutArmed s then on_timeout s else s)"
| "step (Fires CleanupTimer) s = (if cleanupScheduled s then on_cleanup_timer s else s)"
| "step (Fires (FallbackTimer k)) s =
     (if k < length (fallbacks s) then on_fallback_timer k s else s)"

fun run :: "occurrence list \<Rightarrow> exchange \<Rightarrow> exchange" where
  "run [] s = s"
| "run (e # es) s = run es (step e s)"

subsection \<open>The body of \<open>sendMessage\<close> up to the wait\<close>

definition fresh :: "string \<Rightarrow> module_state \<Rightarrow> exchange" where
  "fresh sid g =
     \<lparr>sessionId = sid, fullContent = [], hasDelta = False, completed = False,
      pendingToolCalls = 0, toolNameByCallId = Map.empty, cleanupCalled = False,
      timeoutArmed = False, listening = False, cleanupScheduled = False, fallbacks = [],
      globals = g, calls = []\<rparr>"

text \<open>
  The state in which \<open>session.send\<close> is called, once \<open>getOrCreateSession\<close> has returned a
  session (\<open>g\<close> is the module state it leaves): the prompt is in the cache, the listeners
  are attached and the timeout timer is set.
\<close>

definition before_send :: "string \<Rightarrow> string \<Rightarrow> module_state \<Rightarrow> exchange" where
  "before_send sid prompt g =
     (let g1 = g\<lparr>messageHistoryCache :=
                  addMessageToCache (messageHistoryCache g) sid ''user'' prompt\<rparr>
      in (fresh sid g1)\<lparr>listening := True, timeoutArmed := True\<rparr>)"

text \<open>
  \<open>sendMessage\<close> until it waits on \<open>completionPromise\<close>. \<open>resolve_error\<close> and \<open>send_error\<close>
  are what \<open>getOrCreateSession\<close> and \<open>session.send\<close> throw; either one lands in the \<open>catch\<close>
  block, which runs \<open>cleanup()\<close> and calls \<open>onError\<close>. The events and timers of the exchange
  are then run from the state this function returns: they are taken to be handled once
  \<open>session.send\<close> has returned, while \<open>sendMessage\<close> waits.
\<close>

definition sendMessage ::
  "string \<Rightarrow> string \<Rightarrow> js_error option \<Rightarrow> js_error option \<Rightarrow> module_state \<Rightarrow> exchange" where
  "sendMessage sid prompt resolve_error send_error g =
     (case resolve_error of
        Some e \<Rightarrow> emit (OnError e) (cleanup (fresh sid g))
      | None \<Rightarrow>
          (case send_error of
             Some e \<Rightarrow> emit (OnError e) (cleanup (before_send sid prompt g))
           | None \<Rightarrow> before_send sid prompt g))"

section \<open>Notions used to state the properties\<close>

text \<open>The module state of a process that has started its client and holds no session.\<close>

definition module0 :: module_state where
  "module0 =
     \<lparr>clientInstance = True, activeSessions = Map.empty, sessionAgentMap = Map.empty,
      messageHistoryCache = Map.empty\<rparr>"

text \<open>The terminal signals of an exchange are the calls of \<open>onComplete\<close> and \<open>onError\<close>.\<close>

fun is_terminal_signal :: "callback \<Rightarrow> bool" where
  "is_terminal_signal (OnComplete c) = True"
| "is_terminal_signal (OnError e) = True"
| "is_terminal_signal _ = False"

text \<open>A text cut into pieces of \<open>n\<close> code units, the last one possibly shorter.\<close>

function chunks :: "nat \<Rightarrow> string \<Rightarrow> string list" where
  "chunks n xs = (if n = 0 \<or> xs = [] then [] else take n xs # chunks n (drop n xs))"
  by pat_completeness auto
termination
  by (relation "measure (\<lambda>(n, xs). length xs)") auto

text \<open>Every event of a sequence reaching its handler.\<close>

fun handle_all :: "runtime_event list \<Rightarrow> exchange \<Rightarrow> exchange" where
  "handle_all [] s = s"
| "handle_all (e # es) s = handle_all es (handle e s)"

fun start_id :: "runtime_event \<Rightarrow> string option" where
  "start_id (ToolExecutionStart toolCallId toolName arguments) = Some toolCallId"
| "start_id _ = None"

fun terminal_id :: "runtime_event \<Rightarrow> string option" where
  "terminal_id (ToolExecutionComplete toolCallId result) = Some toolCallId"
| "terminal_id (ToolExecutionError toolCallId err) = Some toolCallId"
| "terminal_id _ = None"

definition starts :: "runtime_event list \<Rightarrow> nat" where
  "starts evs = length (filter (\<lambda>e. start_id e \<noteq> None) evs)"

definition terminals :: "runtime_event list \<Rightarrow> nat" where
  "terminals evs = length (filter (\<lambda>e. terminal_id e \<noteq> None) evs)"

text \<open>
  The pending count as the specification words it: the number of starts minus the number
  of terminal events for ids that were started, floored at 0. \<open>matched_terminals\<close> counts
  the terminal events whose call id has a start earlier in the sequence.
\<close>

fun matched_terminals :: "string list \<Rightarrow> runtime_event list \<Rightarrow> nat" where
  "matched_terminals started [] = 0"
| "matched_terminals started (e # es) =
     (case start_id e of
        Some i \<Rightarrow> matched_terminals (i # started) es
      | None \<Rightarrow>
          (case terminal_id e of
             Some i \<Rightarrow> (if i \<in> set started then 1 else 0) + matched_terminals started es
           | None \<Rightarrow> matched_terminals started es))"

definition spec_pending_count :: "runtime_event list \<Rightarrow> int" where
  "spec_pending_count evs = max 0 (int (starts evs) - int (matched_terminals [] evs))"

section \<open>Properties of the message history cache\<close>

lemma cached_add: "cached (addMessageToCache cache sid r c) sid =
   drop (length (cached cache sid) + 1 - MAX_MESSAGES_PER_SESSION) (cached cache sid @ [\<lparr>role = r, content = c\<rparr>])"
  by (simp add: addMessageToCache_def cached_def Let_def split: option.splits)

lemma cached_add_other: "sid' \<noteq> sid \<Longrightarrow> cached (addMessageToCache cache sid r c) sid' = cached cache sid'"
  by (simp add: addMessageToCache_def cached_def Let_def split: option.splits)

lemma length_cached_add: "length (cached (addMessageToCache cache sid r c) sid) \<le> MAX_MESSAGES_PER_SESSION"
  by (simp add: cached_add MAX_MESSAGES_PER_SESSION_def)

lemma append_all_bounded:
  "length (cached cache sid) \<le> MAX_MESSAGES_PER_SESSION \<Longrightarrow>
   length (cached (append_all cache ops) sid) \<le> MAX_MESSAGES_PER_SESSION"
proof (induction ops arbitrary: cache)
  case Nil
  then show ?case by simp
next
  case (Cons op ops)
  obtain sid' r c where op: "op = (sid', r, c)" by (cases op) auto
  have "length (cached (addMessageToCache cache sid' r c) sid) \<le> MAX_MESSAGES_PER_SESSION"
  proof (cases "sid' = sid")
    case True
    then show ?thesis by (simp add: length_cached_add)
  next
    case False
    then show ?thesis using Cons.prems by (simp add: cached_add_other)
  qed
  then show ?case using Cons.IH op by simp
qed

text \<open>
  C2. Whatever appends are made, starting from the empty cache, no session ever holds
  more than \<open>MAX_MESSAGES_PER_SESSION = 100\<close> entries, and a single append leaves at most
  that many whatever the cache was. An append pushes the entry at the end and then cuts
  the excess over the bound off the front in one go, so the surviving entries keep their
  order and their content. On a session holding exactly 100 entries it drops the oldest
  one and leaves 100.
\<close>

theorem cache_bounded_fifo:
  "length (cached (append_all Map.empty ops) sid) \<le> MAX_MESSAGES_PER_SESSION
   \<and> length (cached (addMessageToCache cache sid r c) sid) \<le> MAX_MESSAGES_PER_SESSION
   \<and> cached (addMessageToCache cache sid r c) sid =
       drop (length (cached cache sid) + 1 - MAX_MESSAGES_PER_SESSION)
         (cached cache sid @ [\<lparr>role = r, content = c\<rparr>])
   \<and> MAX_MESSAGES_PER_SESSION = 100
   \<and> (length (cached cache sid) = 100 \<longrightarrow>
        cached (addMessageToCache cache sid r c) sid =
          drop 1 (cached cache sid) @ [\<lparr>role = r, content = c\<rparr>]
        \<and> length (cached (addMessageToCache cache sid r c) sid) = 100)"
proof -
  have "length (cached Map.empty sid) \<le> MAX_MESSAGES_PER_SESSION"
    by (simp add: cached_def)
  then have a: "length (cached (append_all Map.empty ops) sid) \<le> MAX_MESSAGES_PER_SESSION"
    by (rule append_all_bounded)
  have d: "length (cached cache sid) = 100 \<longrightarrow>
        cached (addMessageToCache cache sid r c) sid =
          drop 1 (cached cache sid) @ [\<lparr>role = r, content = c\<rparr>]
        \<and> length (cached (addMessageToCache cache sid r c) sid) = 100"
    by (simp add: cached_add MAX_MESSAGES_PER_SESSION_def)
  show ?thesis using a d length_cached_add cached_add MAX_MESSAGES_PER_SESSION_def by blast
qed

theorem cache_bounded_fifo_witness:
  "length (cached [''s1'' \<mapsto> replicate 100 \<lparr>role = ''user'', content = ''old''\<rparr>] ''s1'') = 100
   \<and> cached (addMessageToCache [''s1'' \<mapsto> replicate 100 \<lparr>role = ''user'', content = ''old''\<rparr>]
         ''s1'' ''assistant'' ''new'') ''s1''
       = replicate 99 \<lparr>role = ''user'', content = ''old''\<rparr> @ [\<lparr>role = ''assistant'', content = ''new''\<rparr>]
   \<and> length (cached (addMessageToCache [''s1'' \<mapsto> replicate 100 \<lparr>role = ''user'', content = ''old''\<rparr>]
         ''s1'' ''assistant'' ''new'') ''s1'') = 100"
proof -
  let ?old = "\<lparr>role = ''user'', content = ''old''\<rparr>"
  let ?c = "[''s1'' \<mapsto> replicate 100 ?old]"
  have c: "cached ?c ''s1'' = replicate 100 ?old"
    by (simp add: cached_def)
  have h: "length (cached ?c ''s1'') = 100"
    by (simp add: c)
  have t: "cached (addMessageToCache ?c ''s1'' ''assistant'' ''new'') ''s1'' =
             drop 1 (cached ?c ''s1'') @ [\<lparr>role = ''assistant'', content = ''new''\<rparr>]
           \<and> length (cached (addMessageToCache ?c ''s1'' ''assistant'' ''new'') ''s1'') = 100"
    using h cache_bounded_fifo [of "[]" "''s1''" ?c "''assistant''" "''new''"] by blast
  have d: "drop 1 (replicate 100 ?old) = replicate 99 ?old"
    by simp
  show ?thesis using h t c d by simp
qed

section \<open>Properties of the user-input hook\<close>

text \<open>
  C7, as stated: a user-input request on a session without a registered responder
  resolves at once with an empty answer that is not freeform. Both hooks answer with
  \<open>wasFreeform: true\<close>, so the stated answer is not the one they give.
\<close>

theorem user_input_default_counterexample:
  "onUserInputRequest_resume Map.empty ''s1''
     \<lparr>question = ''Which branch?'', choices = None, allowFreeform = None\<rparr>
   \<noteq> Some \<lparr>answer = [], wasFreeform = False\<rparr>
   \<and> onUserInputRequest_create Map.empty (Some ''s1'') ''s1''
     \<lparr>question = ''Which branch?'', choices = None, allowFreeform = None\<rparr>
   \<noteq> Some \<lparr>answer = [], wasFreeform = False\<rparr>"
  by (simp add: onUserInputRequest_resume_def onUserInputRequest_create_def or_else_def or_empty_def)

text \<open>
  C7, amended: with no handler registered under the key the hook looks up (the session id
  for a resumed session; \<open>id || sessionId || ""\<close> for a created one, which is the explicit
  session id when there is one), the request resolves at once, without waiting on any
  promise, with the empty answer flagged \<open>wasFreeform = true\<close>.
\<close>

theorem user_input_default:
  "(handlers sid = None \<longrightarrow>
      onUserInputRequest_resume handlers sid req
        = Some \<lparr>answer = [], wasFreeform = True\<rparr>)
   \<and> (handlers
         (or_else (or_else (or_empty optionalId) runtimeId) (or_else (or_empty optionalId) []))
         = None \<longrightarrow>
      onUserInputRequest_create handlers optionalId runtimeId req
        = Some \<lparr>answer = [], wasFreeform = True\<rparr>)
   \<and> (sid \<noteq> [] \<and> handlers sid = None \<longrightarrow>
      onUserInputRequest_create handlers (Some sid) runtimeId req
        = Some \<lparr>answer = [], wasFreeform = True\<rparr>)"
  by (simp add: onUserInputRequest_resume_def onUserInputRequest_create_def or_else_def
      or_empty_def)

theorem user_input_default_witness:
  "Map.empty ''s1'' = (None :: user_input_handler option)
   \<and> ''s1'' \<noteq> []
   \<and> onUserInputRequest_resume Map.empty ''s1''
       \<lparr>question = ''Which branch?'', choices = None, allowFreeform = None\<rparr>
     = Some \<lparr>answer = [], wasFreeform = True\<rparr>
   \<and> onUserInputRequest_create Map.empty None ''s1''
       \<lparr>question = ''Which branch?'', choices = None, allowFreeform = None\<rparr>
     = Some \<lparr>answer = [], wasFreeform = True\<rparr>
   \<and> onUserInputRequest_create Map.empty (Some ''s1'') ''rt''
       \<lparr>question = ''Which branch?'', choices = None, allowFreeform = None\<rparr>
     = Some \<lparr>answer = [], wasFreeform = True\<rparr>"
  using user_input_default [of Map.empty "''s1''"
      "\<lparr>question = ''Which branch?'', choices = None, allowFreeform = None\<rparr>" None "''s1''"]
    user_input_default [of Map.empty "''s1''"
      "\<lparr>question = ''Which branch?'', choices = None, allowFreeform = None\<rparr>" None "''rt''"]
  by simp

section \<open>Properties of session deletion\<close>

text \<open>
  C8, as stated: \<open>deleteSession\<close> always purges the handle, the cache entries and the agent
  association of the session. Its first statement awaits \<open>getClient()\<close>; when no client
  exists yet and starting one throws, the call rejects before anything is purged. Here
  the session got its agent through \<open>setSessionAgent\<close>, which needs no client, and the
  association outlives the deletion.
\<close>

theorem deleteSession_client_failure_counterexample:
  "fst (deleteSession (Some (Error ''spawn copilot ENOENT'')) None ''s1''
      \<lparr>clientInstance = False, activeSessions = Map.empty,
       sessionAgentMap = [''s1'' \<mapsto> ''agent-1''],
       messageHistoryCache = Map.empty\<rparr>)
     = Some (Error ''spawn copilot ENOENT'')
   \<and> sessionAgentMap (snd (deleteSession (Some (Error ''spawn copilot ENOENT'')) None ''s1''
      \<lparr>clientInstance = False, activeSessions = Map.empty,
       sessionAgentMap = [''s1'' \<mapsto> ''agent-1''],
       messageHistoryCache = Map.empty\<rparr>)) ''s1''
     = Some ''agent-1''"
  by (simp add: deleteSession_def getClient_def)

text \<open>
  C8, amended: whenever the client is available (it exists already, or starting it
  succeeds), \<open>deleteSession\<close> removes the session's handle, its cache entries and its agent
  association, for every session id, and the only error it can end with is the one of
  \<open>client.deleteSession\<close>: an error thrown by \<open>session.destroy()\<close> is swallowed.
\<close>

theorem deleteSession_purges:
  "(clientInstance m \<or> start_error = None \<longrightarrow>
      fst (deleteSession start_error delete_error sid m) = delete_error
      \<and> activeSessions (snd (deleteSession start_error delete_error sid m)) sid = None
      \<and> messageHistoryCache (snd (deleteSession start_error delete_error sid m)) sid
          = None
      \<and> sessionAgentMap (snd (deleteSession start_error delete_error sid m)) sid = None)
   \<and> ((clientInstance m \<or> start_error = None) \<and> activeSessions m sid = Some session
        \<and> destroy_error session = Some e \<longrightarrow>
      fst (deleteSession start_error None sid m) = None)"
  by (auto simp add: deleteSession_def getClient_def Let_def split: option.splits)

theorem deleteSession_purges_witness:
  "clientInstance
     \<lparr>clientInstance = True,
      activeSessions = [''s1'' \<mapsto> \<lparr>session_id = ''s1'', destroy_error = Some (Error ''gone'')\<rparr>],
      sessionAgentMap = [''s1'' \<mapsto> ''agent-1''],
      messageHistoryCache = [''s1'' \<mapsto> [\<lparr>role = ''user'', content = ''hi''\<rparr>]]\<rparr>
   \<and> fst (deleteSession None None ''s1''
     \<lparr>clientInstance = True,
      activeSessions = [''s1'' \<mapsto> \<lparr>session_id = ''s1'', destroy_error = Some (Error ''gone'')\<rparr>],
      sessionAgentMap = [''s1'' \<mapsto> ''agent-1''],
      messageHistoryCache = [''s1'' \<mapsto> [\<lparr>role = ''user'', content = ''hi''\<rparr>]]\<rparr>) = None
   \<and> messageHistoryCache (snd (deleteSession None None ''s1''
     \<lparr>clientInstance = True,
      activeSessions = [''s1'' \<mapsto> \<lparr>session_id = ''s1'', destroy_error = Some (Error ''gone'')\<rparr>],
      sessionAgentMap = [''s1'' \<mapsto> ''agent-1''],
      messageHistoryCache = [''s1'' \<mapsto> [\<lparr>role = ''user'', content = ''hi''\<rparr>]]\<rparr>)) ''s1'' = None"
  using deleteSession_purges [of
     "\<lparr>clientInstance = True,
      activeSessions = [''s1'' \<mapsto> \<lparr>session_id = ''s1'', destroy_error = Some (Error ''gone'')\<rparr>],
      sessionAgentMap = [''s1'' \<mapsto> ''agent-1''],
      messageHistoryCache = [''s1'' \<mapsto> [\<lparr>role = ''user'', content = ''hi''\<rparr>]]\<rparr>"
     None None "''s1''" "\<lparr>session_id = ''s1'', destroy_error = Some (Error ''gone'')\<rparr>" "Error ''gone''"]
  by simp

section \<open>Properties of one exchange\<close>

subsection \<open>What \<open>finalize\<close> changes\<close>

lemmas handler_defs =
  on_message_delta_def on_reasoning_delta_def on_tool_start_def on_tool_complete_def
  on_tool_error_def on_assistant_message_def on_session_error_def on_session_idle_def
  on_timeout_def on_cleanup_timer_def on_fallback_timer_def streamFallback_def

lemmas eval_defs =
  sendMessage_def before_send_def fresh_def module0_def handler_defs finalize_def cleanup_def
  emit_def or_empty_def or_else_def display_name_def slice_def chunkSize_def trim_def
  js_whitespace_def addMessageToCache_def cached_def cache_of_def
  MAX_MESSAGES_PER_SESSION_def Let_def

lemma finalize_calls:
  "calls (finalize c s) = (if completed s then calls s else calls s @ [OnComplete c])"
  by (simp add: finalize_def emit_def Let_def)

lemma finalize_completed: "completed (finalize c s)"
  by (simp add: finalize_def emit_def Let_def)

lemma finalize_cache_of:
  "cache_of (finalize c s) sid =
     (if \<not> completed s \<and> trim c \<noteq> [] \<and> sid = sessionId s
      then drop (length (cache_of s sid) + 1 - MAX_MESSAGES_PER_SESSION)
             (cache_of s sid @ [\<lparr>role = ''assistant'', content = c\<rparr>])
      else cache_of s sid)"
  by (simp add: finalize_def emit_def Let_def cache_of_def cached_add cached_add_other)

lemma finalize_fields:
  "sessionId (finalize c s) = sessionId s"
  "fullContent (finalize c s) = fullContent s"
  "hasDelta (finalize c s) = hasDelta s"
  "pendingToolCalls (finalize c s) = pendingToolCalls s"
  "toolNameByCallId (finalize c s) = toolNameByCallId s"
  "cleanupCalled (finalize c s) = cleanupCalled s"
  "timeoutArmed (finalize c s) = timeoutArmed s"
  "listening (finalize c s) = listening s"
  "fallbacks (finalize c s) = fallbacks s"
  "cleanupScheduled (finalize c s) = (cleanupScheduled s \<or> \<not> completed s)"
  by (simp_all add: finalize_def emit_def Let_def)

subsection \<open>The finished turn in the cache\<close>

lemma finalize_effect:
  assumes "\<not> completed s"
  shows "calls (finalize c s) = calls s @ [OnComplete c]"
    and "trim c \<noteq> [] \<Longrightarrow> cache_of (finalize c s) (sessionId s) \<noteq> []
          \<and> last (cache_of (finalize c s) (sessionId s)) = \<lparr>role = ''assistant'', content = c\<rparr>"
    and "trim c = [] \<Longrightarrow>
          messageHistoryCache (globals (finalize c s)) = messageHistoryCache (globals s)"
proof -
  have "length (cache_of s (sessionId s)) + 1 - MAX_MESSAGES_PER_SESSION
      \<le> length (cache_of s (sessionId s))"
    by (simp add: MAX_MESSAGES_PER_SESSION_def)
  then have d: "drop (length (cache_of s (sessionId s)) + 1 - MAX_MESSAGES_PER_SESSION)
               (cache_of s (sessionId s) @ [\<lparr>role = ''assistant'', content = c\<rparr>])
             = drop (length (cache_of s (sessionId s)) + 1 - MAX_MESSAGES_PER_SESSION)
                 (cache_of s (sessionId s)) @ [\<lparr>role = ''assistant'', content = c\<rparr>]"
    by simp
  show "calls (finalize c s) = calls s @ [OnComplete c]"
    using assms by (simp add: finalize_calls)
  show "trim c \<noteq> [] \<Longrightarrow> cache_of (finalize c s) (sessionId s) \<noteq> []
          \<and> last (cache_of (finalize c s) (sessionId s)) = \<lparr>role = ''assistant'', content = c\<rparr>"
    using assms d by (simp add: finalize_cache_of)
  show "trim c = [] \<Longrightarrow>
          messageHistoryCache (globals (finalize c s)) = messageHistoryCache (globals s)"
    using assms by (simp add: finalize_def emit_def Let_def)
qed

lemma finalize_turn:
  assumes "\<not> completed t" and "calls t = calls s" and "globals t = globals s"
    and "sessionId t = sessionId s"
  shows "\<exists>c. calls (finalize c' t) = calls s @ [OnComplete c]
     \<and> (trim c \<noteq> [] \<longrightarrow>
          cache_of (finalize c' t) (sessionId s) \<noteq> []
          \<and> last (cache_of (finalize c' t) (sessionId s)) = \<lparr>role = ''assistant'', content = c\<rparr>)
     \<and> (trim c = [] \<longrightarrow>
          messageHistoryCache (globals (finalize c' t)) = messageHistoryCache (globals s))"
  using finalize_effect [OF assms(1), of c'] assms(2-4) by (intro exI [of _ c']) simp

lemma step_completion:
  assumes "\<not> completed s" and "completed (step e s)"
  shows "\<exists>c. calls (step e s) = calls s @ [OnComplete c]
     \<and> (trim c \<noteq> [] \<longrightarrow>
          cache_of (step e s) (sessionId s) \<noteq> []
          \<and> last (cache_of (step e s) (sessionId s)) = \<lparr>role = ''assistant'', content = c\<rparr>)
     \<and> (trim c = [] \<longrightarrow>
          messageHistoryCache (globals (step e s)) = messageHistoryCache (globals s))"
proof (cases e)
  case (Runtime r)
  show ?thesis
  proof (cases r)
    case (AssistantMessage msg reqs)
    then show ?thesis using assms Runtime
      by (auto simp add: on_assistant_message_def streamFallback_def emit_def Let_def
          split: if_splits intro!: finalize_turn)
  next
    case SessionIdle
    then show ?thesis using assms Runtime
      by (auto simp add: on_session_idle_def split: if_splits intro!: finalize_turn)
  qed (use assms Runtime in \<open>auto simp add: handler_defs cleanup_def emit_def Let_def
        split: if_splits\<close>)
next
  case (Fires t)
  show ?thesis
  proof (cases t)
    case TimeoutTimer
    then show ?thesis using assms Fires
      by (auto simp add: on_timeout_def cleanup_def emit_def Let_def
          split: if_splits intro!: finalize_turn)
  next
    case CleanupTimer
    then show ?thesis using assms Fires
      by (auto simp add: on_cleanup_timer_def cleanup_def split: if_splits)
  next
    case (FallbackTimer k)
    then show ?thesis using assms Fires
      by (auto simp add: on_fallback_timer_def emit_def Let_def
          split: if_splits prod.splits intro!: finalize_turn)
  qed
qed

lemma step_no_completion:
  assumes "completed s \<or> \<not> completed (step e s)"
  shows "\<exists>xs. calls (step e s) = calls s @ xs \<and> (\<forall>c. OnComplete c \<notin> set xs)"
proof (cases e)
  case (Runtime r)
  then show ?thesis using assms
    by (cases r)
      (auto simp add: handler_defs finalize_calls finalize_completed cleanup_def emit_def Let_def
        split: if_splits)
next
  case (Fires t)
  then show ?thesis using assms
    by (cases t)
      (auto simp add: handler_defs finalize_calls finalize_completed cleanup_def emit_def Let_def
        split: if_splits prod.splits)
qed

text \<open>
  C9, as stated: whenever \<open>onComplete\<close> fires, the cache afterwards holds an assistant
  entry with the completed content. An exchange that produced only reasoning output
  completes on \<open>session.idle\<close> with the empty buffer: \<open>onComplete\<close> fires and the cache
  holds the user's prompt and nothing else.
\<close>

theorem finalize_empty_counterexample:
  "calls (run [Runtime (ReasoningDelta (Some ''thinking'')), Runtime SessionIdle]
            (sendMessage ''s1'' ''hello'' None None module0)) =
     [OnReasoningDelta ''thinking'', OnComplete []]
   \<and> cache_of (run [Runtime (ReasoningDelta (Some ''thinking'')), Runtime SessionIdle]
                (sendMessage ''s1'' ''hello'' None None module0)) ''s1'' =
     [\<lparr>role = ''user'', content = ''hello''\<rparr>]"
  by (simp add: eval_defs)

text \<open>
  C9, amended: \<open>onComplete\<close> is called by \<open>finalize\<close> alone, on its first call: a turn of
  the event loop calls \<open>onComplete\<close> exactly when it sets the latch \<open>completed\<close>, and then
  once, as its last callback. When the completed content has a character that is not
  white space, the session's cache then ends with the assistant entry carrying that
  content; when it is empty or white space only, \<open>onComplete\<close> still fires and the cache
  is left as it was.
\<close>

theorem finalize_records_turn:
  "(\<not> completed s \<longrightarrow>
     calls (finalize c s) = calls s @ [OnComplete c]
     \<and> (trim c \<noteq> [] \<longrightarrow>
          cache_of (finalize c s) (sessionId s) \<noteq> []
          \<and> last (cache_of (finalize c s) (sessionId s)) = \<lparr>role = ''assistant'', content = c\<rparr>)
     \<and> (trim c = [] \<longrightarrow>
          messageHistoryCache (globals (finalize c s)) = messageHistoryCache (globals s)))
   \<and> (\<not> completed s \<and> completed (step e s) \<longrightarrow>
        (\<exists>c'. calls (step e s) = calls s @ [OnComplete c']
           \<and> (trim c' \<noteq> [] \<longrightarrow>
                cache_of (step e s) (sessionId s) \<noteq> []
                \<and> last (cache_of (step e s) (sessionId s))
                    = \<lparr>role = ''assistant'', content = c'\<rparr>)
           \<and> (trim c' = [] \<longrightarrow>
                messageHistoryCache (globals (step e s)) = messageHistoryCache (globals s))))
   \<and> (completed s \<or> \<not> completed (step e s) \<longrightarrow>
        (\<exists>xs. calls (step e s) = calls s @ xs \<and> (\<forall>c'. OnComplete c' \<notin> set xs)))"
  using finalize_effect [of s c] step_completion [of s e] step_no_completion [of s e]
  by blast

theorem finalize_records_turn_witness:
  "\<not> completed (sendMessage ''s1'' ''hello'' None None module0)
   \<and> trim ''Hi there'' \<noteq> []
   \<and> trim ''  '' = []
   \<and> last (cache_of (finalize ''Hi there'' (sendMessage ''s1'' ''hello'' None None module0)) ''s1'')
       = \<lparr>role = ''assistant'', content = ''Hi there''\<rparr>
   \<and> calls (finalize ''Hi there'' (sendMessage ''s1'' ''hello'' None None module0))
       = [OnComplete ''Hi there'']
   \<and> calls (finalize ''  '' (sendMessage ''s1'' ''hello'' None None module0)) = [OnComplete ''  '']
   \<and> completed (step (Runtime SessionIdle) (sendMessage ''s1'' ''hello'' None None module0))
   \<and> calls (step (Runtime SessionIdle) (sendMessage ''s1'' ''hello'' None None module0))
       = [OnComplete []]
   \<and> \<not> completed (step (Runtime (MessageDelta (Some ''Hi'')))
                      (sendMessage ''s1'' ''hello'' None None module0))
   \<and> OnComplete ''Hi'' \<notin> set (calls (step (Runtime (MessageDelta (Some ''Hi'')))
                      (sendMessage ''s1'' ''hello'' None None module0)))"
proof -
  let ?s = "sendMessage ''s1'' ''hello'' None None module0"
  have a: "\<not> completed ?s" "sessionId ?s = ''s1''" "calls ?s = []"
    by (simp_all add: sendMessage_def before_send_def fresh_def)
  have b: "trim ''Hi there'' \<noteq> []" "trim ''  '' = []"
    by (simp_all add: trim_def js_whitespace_def)
  have i: "completed (step (Runtime SessionIdle) ?s)"
    by (simp add: eval_defs)
  have d: "\<not> completed (step (Runtime (MessageDelta (Some ''Hi''))) ?s)"
    by (simp add: eval_defs)
  have "\<exists>c'. calls (step (Runtime SessionIdle) ?s) = calls ?s @ [OnComplete c']"
    using a i finalize_records_turn [of ?s _ "Runtime SessionIdle"] by blast
  moreover have j: "calls (step (Runtime SessionIdle) ?s) = [OnComplete []]"
    by (simp add: eval_defs)
  moreover have k: "OnComplete ''Hi'' \<notin> set (calls (step (Runtime (MessageDelta (Some ''Hi''))) ?s))"
    using a d finalize_records_turn [of ?s _ "Runtime (MessageDelta (Some ''Hi''))"] by auto
  ultimately show ?thesis
    using a b i d finalize_records_turn [of ?s "''Hi there''"] finalize_records_turn [of ?s "''  ''"]
    by simp
qed

subsection \<open>Deferred completion\<close>

text \<open>
  C5, as stated: while a tool call is pending, any non-empty content of the
  \<open>assistant.message\<close> event is captured into the output buffer. The handler stores it
  only into an empty buffer: after a delta \<open>ab\<close> and a tool start, a message carrying \<open>xyz\<close>
  leaves the buffer at \<open>ab\<close>.
\<close>

theorem message_content_not_captured_counterexample:
  "0 < pendingToolCalls (run [Runtime (MessageDelta (Some ''ab'')),
                              Runtime (ToolExecutionStart ''call-1'' ''weather'' ''{}'')]
                           (sendMessage ''s1'' ''hello'' None None module0))
   \<and> fullContent (run [Runtime (MessageDelta (Some ''ab'')),
                       Runtime (ToolExecutionStart ''call-1'' ''weather'' ''{}''),
                       Runtime (AssistantMessage (Some ''xyz'') None)]
                    (sendMessage ''s1'' ''hello'' None None module0)) = ''ab''"
  by (simp add: eval_defs)

text \<open>
  C5, amended: an \<open>assistant.message\<close> event that carries tool requests and empty content
  changes nothing. While the pending-tool-call counter is positive the event fires no
  callback and no completion; its content becomes the buffer when the buffer is still
  empty, and a non-empty buffer is kept as it is. A \<open>session.idle\<close> event that finds no
  completion fired and the counter at 0 completes the exchange with the buffer as it
  stands, the empty string included.
\<close>

theorem message_deferred_idle_completes:
  "(reqs \<noteq> [] \<longrightarrow>
      on_assistant_message None (Some reqs) s = s
      \<and> on_assistant_message (Some []) (Some reqs) s = s)
   \<and> (0 < pendingToolCalls s \<longrightarrow>
      calls (on_assistant_message msg toolRequests s) = calls s
      \<and> completed (on_assistant_message msg toolRequests s) = completed s
      \<and> fullContent (on_assistant_message msg toolRequests s) =
          (if fullContent s = [] then or_empty msg else fullContent s))
   \<and> (\<not> completed s \<and> pendingToolCalls s = 0 \<longrightarrow>
      calls (on_session_idle s) = calls s @ [OnComplete (fullContent s)]
      \<and> completed (on_session_idle s))"
  by (simp add: on_assistant_message_def on_session_idle_def or_empty_def finalize_calls
      finalize_completed Let_def)

theorem message_deferred_idle_completes_witness:
  "[''{}''] \<noteq> ([] :: json list)
   \<and> on_assistant_message None (Some [''{}'']) (sendMessage ''s1'' ''hello'' None None module0)
       = sendMessage ''s1'' ''hello'' None None module0
   \<and> 0 < pendingToolCalls (on_tool_start ''call-1'' ''weather'' ''{}''
            (sendMessage ''s1'' ''hello'' None None module0))
   \<and> fullContent (on_assistant_message (Some ''xyz'') None
          (on_tool_start ''call-1'' ''weather'' ''{}''
            (sendMessage ''s1'' ''hello'' None None module0))) = ''xyz''
   \<and> calls (on_assistant_message (Some ''xyz'') None
          (on_tool_start ''call-1'' ''weather'' ''{}''
            (sendMessage ''s1'' ''hello'' None None module0)))
       = [OnToolCall ''weather'' ''{}'' ''call-1'']
   \<and> \<not> completed (sendMessage ''s1'' ''hello'' None None module0)
   \<and> pendingToolCalls (sendMessage ''s1'' ''hello'' None None module0) = 0
   \<and> calls (on_session_idle (sendMessage ''s1'' ''hello'' None None module0)) = [OnComplete []]"
proof -
  let ?s = "sendMessage ''s1'' ''hello'' None None module0"
  let ?t = "on_tool_start ''call-1'' ''weather'' ''{}'' ?s"
  have a: "\<not> completed ?s" "pendingToolCalls ?s = 0" "calls ?s = []" "fullContent ?s = []"
    by (simp_all add: sendMessage_def before_send_def fresh_def)
  have b: "0 < pendingToolCalls ?t" "fullContent ?t = []"
    "calls ?t = [OnToolCall ''weather'' ''{}'' ''call-1'']"
    by (simp_all add: on_tool_start_def emit_def Let_def a)
  show ?thesis
    using a b message_deferred_idle_completes [of "[''{}'']" ?s "Some ''xyz''" None]
      message_deferred_idle_completes [of "[''{}'']" ?t "Some ''xyz''" None]
    by (simp add: or_empty_def)
qed

subsection \<open>Invariants of the event loop\<close>

lemma run_append: "run (xs @ ys) s = run ys (run xs s)"
  by (induction xs arbitrary: s) simp_all

lemma run_invariant:
  assumes "P s" and "\<And>e t. P t \<Longrightarrow> P (step e t)"
  shows "P (run evs s)"
  using assms(1)
proof (induction evs arbitrary: s)
  case Nil
  then show ?case by simp
next
  case (Cons e evs)
  then show ?case using assms(2) by simp
qed

lemma step_keeps_disarmed: "\<not> timeoutArmed s \<Longrightarrow> \<not> timeoutArmed (step e s)"
proof (cases e)
  case (Runtime r)
  assume "\<not> timeoutArmed s"
  then show ?thesis using Runtime
    by (cases r) (simp_all add: handler_defs finalize_fields cleanup_def emit_def Let_def)
next
  case (Fires t)
  assume "\<not> timeoutArmed s"
  then show ?thesis using Fires
    by (cases t)
      (simp_all add: handler_defs finalize_fields cleanup_def emit_def Let_def
        split: prod.splits)
qed

lemma step_cleanup_disarms:
  assumes "cleanupCalled s \<longrightarrow> \<not> timeoutArmed s"
    and "completed s \<and> \<not> cleanupScheduled s \<longrightarrow> cleanupCalled s"
  shows "(cleanupCalled (step e s) \<longrightarrow> \<not> timeoutArmed (step e s))
    \<and> (completed (step e s) \<and> \<not> cleanupScheduled (step e s) \<longrightarrow> cleanupCalled (step e s))"
proof (cases e)
  case (Runtime r)
  then show ?thesis using assms
    by (cases r)
      (simp_all add: handler_defs finalize_fields finalize_completed cleanup_def emit_def Let_def)
next
  case (Fires t)
  then show ?thesis using assms
    by (cases t)
      (simp_all add: handler_defs finalize_fields finalize_completed cleanup_def emit_def Let_def
        split: prod.splits)
qed

lemma sendMessage_start_fields:
  "\<not> completed (sendMessage sid p re se g)"
  "\<not> cleanupScheduled (sendMessage sid p re se g)"
  "cleanupCalled (sendMessage sid p re se g) \<longrightarrow> \<not> timeoutArmed (sendMessage sid p re se g)"
  "sessionId (sendMessage sid p re se g) = sid"
  by (simp_all add: sendMessage_def before_send_def fresh_def cleanup_def emit_def Let_def
      split: option.splits)

lemma reachable_cleanup_disarms:
  "(cleanupCalled (run evs (sendMessage sid p re se g))
      \<longrightarrow> \<not> timeoutArmed (run evs (sendMessage sid p re se g)))
   \<and> (completed (run evs (sendMessage sid p re se g))
        \<and> \<not> cleanupScheduled (run evs (sendMessage sid p re se g))
      \<longrightarrow> cleanupCalled (run evs (sendMessage sid p re se g)))"
  by (rule run_invariant [where P = "\<lambda>s. (cleanupCalled s \<longrightarrow> \<not> timeoutArmed s)
        \<and> (completed s \<and> \<not> cleanupScheduled s \<longrightarrow> cleanupCalled s)"])
    (simp_all add: sendMessage_start_fields step_cleanup_disarms)

subsection \<open>The timeout\<close>

text \<open>
  C6, as stated: the timer is disarmed on the first successful finalize, so it can never
  fire after completion. \<open>finalize\<close> does not clear the timer; it schedules \<open>cleanup\<close>, which
  does, 100 ms later. Right after a completion the timer is still armed.
\<close>

theorem timer_armed_after_finalize_counterexample:
  "calls (run [Runtime (MessageDelta (Some ''hi'')), Runtime (AssistantMessage (Some ''hi'') None)]
            (sendMessage ''s1'' ''hello'' None None module0)) = [OnDelta ''hi'', OnComplete ''hi'']
   \<and> completed (run [Runtime (MessageDelta (Some ''hi'')),
                     Runtime (AssistantMessage (Some ''hi'') None)]
                  (sendMessage ''s1'' ''hello'' None None module0))
   \<and> timeoutArmed (run [Runtime (MessageDelta (Some ''hi'')),
                        Runtime (AssistantMessage (Some ''hi'') None)]
                     (sendMessage ''s1'' ''hello'' None None module0))"
  by (simp add: eval_defs)

text \<open>
  C6, amended: when the timer fires before any completion, a non-empty buffer makes the
  exchange complete with the buffer (\<open>onComplete\<close>, no error), and an empty buffer makes it
  fail with the timeout error, handed to \<open>onError\<close>, whose message differs from the
  default of a session error. The timer is disarmed by the cleanup that the first
  successful finalize schedules: in every state an exchange can reach, once completion
  has fired and its scheduled cleanup has run, the timer is not armed; a timer that is
  not armed does nothing and is never armed again; and a timer firing after completion,
  before that cleanup, calls no callback.
\<close>

theorem timeout_outcomes:
  "(timeoutArmed s \<and> \<not> completed s \<and> fullContent s \<noteq> [] \<longrightarrow>
      calls (step (Fires TimeoutTimer) s) = calls s @ [OnComplete (fullContent s)]
      \<and> completed (step (Fires TimeoutTimer) s))
   \<and> (timeoutArmed s \<and> \<not> completed s \<and> fullContent s = [] \<longrightarrow>
      calls (step (Fires TimeoutTimer) s) = calls s @ [OnError (Error TIMEOUT_MESSAGE)]
      \<and> \<not> completed (step (Fires TimeoutTimer) s))
   \<and> TIMEOUT_MESSAGE \<noteq> UNKNOWN_ERROR_MESSAGE
   \<and> (completed s \<longrightarrow> calls (step (Fires TimeoutTimer) s) = calls s)
   \<and> (completed (run evs (sendMessage sid p re se g))
        \<and> \<not> cleanupScheduled (run evs (sendMessage sid p re se g))
      \<longrightarrow> \<not> timeoutArmed (run evs (sendMessage sid p re se g)))
   \<and> (\<not> timeoutArmed s \<longrightarrow>
        step (Fires TimeoutTimer) s = s \<and> \<not> timeoutArmed (run evs' s))"
proof -
  have a: "timeoutArmed s \<and> \<not> completed s \<and> fullContent s \<noteq> [] \<longrightarrow>
      calls (step (Fires TimeoutTimer) s) = calls s @ [OnComplete (fullContent s)]
      \<and> completed (step (Fires TimeoutTimer) s)"
    by (simp add: on_timeout_def finalize_calls finalize_completed Let_def)
  have b: "timeoutArmed s \<and> \<not> completed s \<and> fullContent s = [] \<longrightarrow>
      calls (step (Fires TimeoutTimer) s) = calls s @ [OnError (Error TIMEOUT_MESSAGE)]
      \<and> \<not> completed (step (Fires TimeoutTimer) s)"
    by (simp add: on_timeout_def cleanup_def emit_def Let_def)
  have c: "TIMEOUT_MESSAGE \<noteq> UNKNOWN_ERROR_MESSAGE"
    by (simp add: TIMEOUT_MESSAGE_def UNKNOWN_ERROR_MESSAGE_def)
  have d: "completed s \<longrightarrow> calls (step (Fires TimeoutTimer) s) = calls s"
    by (simp add: on_timeout_def Let_def)
  have e: "completed (run evs (sendMessage sid p re se g))
        \<and> \<not> cleanupScheduled (run evs (sendMessage sid p re se g))
      \<longrightarrow> \<not> timeoutArmed (run evs (sendMessage sid p re se g))"
    using reachable_cleanup_disarms [of evs sid p re se g] by blast
  have "\<not> timeoutArmed s \<Longrightarrow> \<not> timeoutArmed (run evs' s)"
    by (rule run_invariant [where P = "\<lambda>s. \<not> timeoutArmed s"]) (simp_all add: step_keeps_disarmed)
  then have f: "\<not> timeoutArmed s \<longrightarrow>
        step (Fires TimeoutTimer) s = s \<and> \<not> timeoutArmed (run evs' s)"
    by simp
  show ?thesis using a b c d e f by blast
qed

theorem timeout_outcomes_witness:
  "timeoutArmed (run [Runtime (MessageDelta (Some ''partial''))]
                   (sendMessage ''s1'' ''hello'' None None module0))
   \<and> \<not> completed (run [Runtime (MessageDelta (Some ''partial''))]
                      (sendMessage ''s1'' ''hello'' None None module0))
   \<and> fullContent (run [Runtime (MessageDelta (Some ''partial''))]
                    (sendMessage ''s1'' ''hello'' None None module0)) \<noteq> []
   \<and> calls (step (Fires TimeoutTimer)
              (run [Runtime (MessageDelta (Some ''partial''))]
                 (sendMessage ''s1'' ''hello'' None None module0)))
       = [OnDelta ''partial'', OnComplete ''partial'']
   \<and> timeoutArmed (sendMessage ''s1'' ''hello'' None None module0)
   \<and> \<not> completed (sendMessage ''s1'' ''hello'' None None module0)
   \<and> fullContent (sendMessage ''s1'' ''hello'' None None module0) = []
   \<and> calls (step (Fires TimeoutTimer) (sendMessage ''s1'' ''hello'' None None module0))
       = [OnError (Error TIMEOUT_MESSAGE)]
   \<and> completed (run [Runtime SessionIdle] (sendMessage ''s1'' ''hello'' None None module0))
   \<and> calls (step (Fires TimeoutTimer)
              (run [Runtime SessionIdle] (sendMessage ''s1'' ''hello'' None None module0)))
       = [OnComplete []]
   \<and> completed (run [Runtime SessionIdle, Fires CleanupTimer]
                  (sendMessage ''s1'' ''hello'' None None module0))
   \<and> \<not> cleanupScheduled (run [Runtime SessionIdle, Fires CleanupTimer]
                             (sendMessage ''s1'' ''hello'' None None module0))
   \<and> \<not> timeoutArmed (run [Runtime SessionIdle, Fires CleanupTimer]
                         (sendMessage ''s1'' ''hello'' None None module0))
   \<and> \<not> timeoutArmed (run [Runtime SessionIdle, Fires CleanupTimer, Fires TimeoutTimer]
                         (sendMessage ''s1'' ''hello'' None None module0))"
proof -
  let ?s = "sendMessage ''s1'' ''hello'' None None module0"
  let ?a = "run [Runtime (MessageDelta (Some ''partial''))] ?s"
  let ?c = "run [Runtime SessionIdle] ?s"
  let ?d = "run [Runtime SessionIdle, Fires CleanupTimer] ?s"
  have s: "timeoutArmed ?s" "\<not> completed ?s" "fullContent ?s = []" "calls ?s = []"
    by (simp_all add: sendMessage_def before_send_def fresh_def)
  have a: "timeoutArmed ?a" "\<not> completed ?a" "fullContent ?a = ''partial''"
    "calls ?a = [OnDelta ''partial'']"
    by (simp_all add: eval_defs)
  have c: "completed ?c" "calls ?c = [OnComplete []]"
    by (simp_all add: eval_defs)
  have d: "completed ?d" "\<not> cleanupScheduled ?d"
    by (simp_all add: eval_defs)
  have d': "\<not> timeoutArmed ?d"
    using d timeout_outcomes [where evs = "[Runtime SessionIdle, Fires CleanupTimer]"
        and sid = "''s1''" and p = "''hello''" and re = None and se = None and g = module0]
    by blast
  have d'': "\<not> timeoutArmed (run [Fires TimeoutTimer] ?d)"
    using d' timeout_outcomes [where s = ?d and evs' = "[Fires TimeoutTimer]"] by blast
  have a': "calls (step (Fires TimeoutTimer) ?a) = [OnDelta ''partial'', OnComplete ''partial'']"
    using a timeout_outcomes [where s = ?a] by simp
  have s': "calls (step (Fires TimeoutTimer) ?s) = [OnError (Error TIMEOUT_MESSAGE)]"
    using s timeout_outcomes [where s = ?s] by simp
  have c': "calls (step (Fires TimeoutTimer) ?c) = [OnComplete []]"
    using c timeout_outcomes [where s = ?c] by simp
  show ?thesis
    using s a c d d' d'' a' s' c' by simp
qed

subsection \<open>The user's prompt in the cache\<close>

lemma last_survives_trim:
  assumes "xs \<noteq> []"
  shows "last xs \<in> set (drop (length xs + 1 - MAX_MESSAGES_PER_SESSION) (xs @ [a]))"
proof -
  let ?k = "length xs + 1 - MAX_MESSAGES_PER_SESSION"
  have k: "?k < length xs"
    using assms by (simp add: MAX_MESSAGES_PER_SESSION_def)
  then have "drop ?k xs \<noteq> []" by simp
  then have "last (drop ?k xs) \<in> set (drop ?k xs)" by (rule last_in_set)
  moreover have "last (drop ?k xs) = last xs" using k by simp
  ultimately show ?thesis using k by simp
qed

lemma finalize_keeps_prompt:
  assumes "sessionId s = sid"
    and "\<not> completed s \<longrightarrow> cache_of s sid \<noteq> [] \<and> last (cache_of s sid) = u"
    and "u \<in> set (cache_of s sid)"
  shows "u \<in> set (cache_of (finalize c s) sid)"
proof (cases "\<not> completed s \<and> trim c \<noteq> []")
  case True
  then have "cache_of s sid \<noteq> []" "last (cache_of s sid) = u" using assms(2) by simp_all
  then have "u \<in> set (drop (length (cache_of s sid) + 1 - MAX_MESSAGES_PER_SESSION)
      (cache_of s sid @ [\<lparr>role = ''assistant'', content = c\<rparr>]))"
    using last_survives_trim [of "cache_of s sid"] by simp
  then show ?thesis using True assms(1) by (simp add: finalize_cache_of)
next
  case False
  then show ?thesis using assms(3) by (auto simp add: finalize_cache_of)
qed

lemma step_keeps_prompt:
  assumes "sessionId s = sid"
    and "\<not> completed s \<longrightarrow> cache_of s sid \<noteq> [] \<and> last (cache_of s sid) = u"
    and "u \<in> set (cache_of s sid)"
  shows "sessionId (step e s) = sid
    \<and> (\<not> completed (step e s) \<longrightarrow>
          cache_of (step e s) sid \<noteq> [] \<and> last (cache_of (step e s) sid) = u)
    \<and> u \<in> set (cache_of (step e s) sid)"
proof -
  have upd: "\<And>f. sessionId (f s) = sessionId s \<Longrightarrow> completed (f s) = completed s \<Longrightarrow>
      globals (f s) = globals s \<Longrightarrow>
      u \<in> set (cache_of (finalize c (f s)) sid)" for c
    using assms by (intro finalize_keeps_prompt) (simp_all add: cache_of_def)
  show ?thesis
  proof (cases e)
    case (Runtime r)
    then show ?thesis using assms
      by (cases r)
        (auto simp add: handler_defs finalize_fields finalize_completed cleanup_def emit_def
          Let_def cache_of_def intro!: upd [unfolded cache_of_def] finalize_keeps_prompt [unfolded cache_of_def])
  next
    case (Fires t)
    then show ?thesis using assms
      by (cases t)
        (auto simp add: handler_defs finalize_fields finalize_completed cleanup_def emit_def
          Let_def cache_of_def split: prod.splits intro!: upd [unfolded cache_of_def] finalize_keeps_prompt [unfolded cache_of_def])
  qed
qed

lemma before_send_cache:
  "cache_of (before_send sid p g) sid \<noteq> []"
  "last (cache_of (before_send sid p g) sid) = \<lparr>role = ''user'', content = p\<rparr>"
  "sessionId (before_send sid p g) = sid"
  "\<not> completed (before_send sid p g)"
proof -
  have c: "cache_of (before_send sid p g) sid =
      drop (length (cached (messageHistoryCache g) sid) + 1 - MAX_MESSAGES_PER_SESSION)
        (cached (messageHistoryCache g) sid @ [\<lparr>role = ''user'', content = p\<rparr>])"
    by (simp add: before_send_def fresh_def cache_of_def cached_add Let_def)
  have k: "length (cached (messageHistoryCache g) sid) + 1 - MAX_MESSAGES_PER_SESSION
      \<le> length (cached (messageHistoryCache g) sid)"
    by (simp add: MAX_MESSAGES_PER_SESSION_def)
  show "cache_of (before_send sid p g) sid \<noteq> []"
    using k by (simp add: c)
  show "last (cache_of (before_send sid p g) sid) = \<lparr>role = ''user'', content = p\<rparr>"
    using k by (simp add: c)
  show "sessionId (before_send sid p g) = sid" "\<not> completed (before_send sid p g)"
    by (simp_all add: before_send_def fresh_def Let_def)
qed

text \<open>
  C10. When \<open>getOrCreateSession\<close> has returned a session, the state in which
  \<open>session.send\<close> is called already has the user's prompt as the last entry of the
  session's cache. Whatever happens next (the send throwing, any sequence of runtime
  events and timers), the entry is still in the cache: a session error never touches the
  cache, nor does the timeout on an empty buffer.
\<close>

theorem prompt_cached_and_kept:
  "cache_of (before_send sid p g) sid \<noteq> []
   \<and> last (cache_of (before_send sid p g) sid) = \<lparr>role = ''user'', content = p\<rparr>
   \<and> \<lparr>role = ''user'', content = p\<rparr>
        \<in> set (cache_of (run evs (sendMessage sid p None send_error g)) sid)
   \<and> messageHistoryCache (globals (step (Runtime (SessionError msg)) s))
        = messageHistoryCache (globals s)
   \<and> (fullContent s = [] \<longrightarrow>
        messageHistoryCache (globals (step (Fires TimeoutTimer) s))
          = messageHistoryCache (globals s))"
proof -
  let ?u = "\<lparr>role = ''user'', content = p\<rparr>"
  let ?s0 = "sendMessage sid p None send_error g"
  let ?P = "\<lambda>s. sessionId s = sid
      \<and> (\<not> completed s \<longrightarrow> cache_of s sid \<noteq> [] \<and> last (cache_of s sid) = ?u)
      \<and> ?u \<in> set (cache_of s sid)"
  have "?u \<in> set (cache_of (before_send sid p g) sid)"
    using before_send_cache(1,2) [of sid p g] last_in_set by metis
  then have init: "?P ?s0"
    using before_send_cache [of sid p g]
    by (simp add: sendMessage_def cleanup_def emit_def cache_of_def split: option.splits)
  have "?P (run evs ?s0)"
    by (rule run_invariant [where P = ?P]) (use init step_keeps_prompt in blast)+
  then have kept: "?u \<in> set (cache_of (run evs ?s0) sid)" by simp
  have err: "messageHistoryCache (globals (step (Runtime (SessionError msg)) s))
        = messageHistoryCache (globals s)"
    by (simp add: on_session_error_def cleanup_def emit_def)
  have tmo: "fullContent s = [] \<longrightarrow>
        messageHistoryCache (globals (step (Fires TimeoutTimer) s))
          = messageHistoryCache (globals s)"
    by (simp add: on_timeout_def cleanup_def emit_def Let_def)
  show ?thesis
    using before_send_cache(1,2) [of sid p g] kept err tmo by blast
qed

theorem prompt_cached_and_kept_witness:
  "fullContent (sendMessage ''s1'' ''hello'' None None module0) = []
   \<and> cache_of (step (Fires TimeoutTimer) (sendMessage ''s1'' ''hello'' None None module0)) ''s1''
       = [\<lparr>role = ''user'', content = ''hello''\<rparr>]
   \<and> \<lparr>role = ''user'', content = ''hello''\<rparr>
       \<in> set (cache_of (run [Runtime (SessionError (Some ''boom''))]
                 (sendMessage ''s1'' ''hello'' None None module0)) ''s1'')"
proof -
  let ?s = "sendMessage ''s1'' ''hello'' None None module0"
  have a: "fullContent ?s = []"
    by (simp add: sendMessage_def before_send_def fresh_def)
  have b: "cache_of ?s ''s1'' = [\<lparr>role = ''user'', content = ''hello''\<rparr>]"
    by (simp add: eval_defs)
  have "messageHistoryCache (globals (step (Fires TimeoutTimer) ?s))
      = messageHistoryCache (globals ?s)"
    using a prompt_cached_and_kept [where s = ?s] by blast
  then have c: "cache_of (step (Fires TimeoutTimer) ?s) ''s1'' = cache_of ?s ''s1''"
    by (simp add: cache_of_def)
  have d: "\<lparr>role = ''user'', content = ''hello''\<rparr>
       \<in> set (cache_of (run [Runtime (SessionError (Some ''boom''))] ?s) ''s1'')"
    using prompt_cached_and_kept [where sid = "''s1''" and p = "''hello''" and send_error = None
        and g = module0 and evs = "[Runtime (SessionError (Some ''boom''))]"]
    by blast
  show ?thesis using a b c d by simp
qed

subsection \<open>The pending-tool-call counter\<close>

lemma handle_all_snoc: "handle_all (evs @ [e]) s = handle e (handle_all evs s)"
  by (induction evs arbitrary: s) simp_all

lemma handle_pending:
  "pendingToolCalls (handle e s) =
     (if start_id e \<noteq> None then pendingToolCalls s + 1
      else if terminal_id e \<noteq> None then max 0 (pendingToolCalls s - 1)
      else pendingToolCalls s)"
  by (cases e)
    (simp_all add: handler_defs finalize_fields cleanup_def emit_def Let_def)

lemma starts_snoc: "starts (evs @ [e]) = starts evs + (if start_id e \<noteq> None then 1 else 0)"
  by (simp add: starts_def)

lemma terminals_snoc:
  "terminals (evs @ [e]) = terminals evs + (if terminal_id e \<noteq> None then 1 else 0)"
  by (simp add: terminals_def)

lemma start_not_terminal: "start_id e \<noteq> None \<Longrightarrow> terminal_id e = None"
  by (cases e) simp_all

lemma pending_nonneg:
  "0 \<le> pendingToolCalls s \<Longrightarrow> 0 \<le> pendingToolCalls (handle_all evs s)"
  by (induction evs rule: rev_induct) (simp_all add: handle_all_snoc handle_pending)

lemma pending_lower_bound:
  "pendingToolCalls s + int (starts evs) - int (terminals evs)
     \<le> pendingToolCalls (handle_all evs s)"
proof (induction evs rule: rev_induct)
  case Nil
  then show ?case by (simp add: starts_def terminals_def)
next
  case (snoc e evs)
  then show ?case
    using start_not_terminal [of e]
    by (auto simp add: handle_all_snoc handle_pending starts_snoc terminals_snoc)
qed

lemma pending_exact:
  assumes "\<forall>n \<le> length evs.
      int (terminals (take n evs)) \<le> pendingToolCalls s + int (starts (take n evs))"
  shows "pendingToolCalls (handle_all evs s)
     = pendingToolCalls s + int (starts evs) - int (terminals evs)"
  using assms
proof (induction evs rule: rev_induct)
  case Nil
  then show ?case by (simp add: starts_def terminals_def)
next
  case (snoc e evs)
  have "\<forall>n \<le> length evs.
      int (terminals (take n evs)) \<le> pendingToolCalls s + int (starts (take n evs))"
  proof (intro allI impI)
    fix n assume n: "n \<le> length evs"
    then have "n \<le> length (evs @ [e])" by simp
    then have "int (terminals (take n (evs @ [e])))
        \<le> pendingToolCalls s + int (starts (take n (evs @ [e])))"
      using snoc.prems by blast
    then show "int (terminals (take n evs)) \<le> pendingToolCalls s + int (starts (take n evs))"
      using n by simp
  qed
  then have ih: "pendingToolCalls (handle_all evs s)
      = pendingToolCalls s + int (starts evs) - int (terminals evs)"
    by (rule snoc.IH)
  have "int (terminals (take (length (evs @ [e])) (evs @ [e])))
      \<le> pendingToolCalls s + int (starts (take (length (evs @ [e])) (evs @ [e])))"
    using snoc.prems by blast
  then have full: "int (terminals (evs @ [e])) \<le> pendingToolCalls s + int (starts (evs @ [e]))"
    by simp
  show ?case
    using ih full start_not_terminal [of e]
    by (auto simp add: handle_all_snoc handle_pending starts_snoc terminals_snoc)
qed

text \<open>
  C3, as stated: after any sequence of tool events the counter is the number of starts
  minus the number of terminal events for ids that were started, floored at 0. The
  handlers of \<open>tool.execution_complete\<close> and \<open>tool.execution_error\<close> decrement the counter
  without looking at the call id: after one start and a completion of a call that was
  never started the counter is 0, where the stated count is 1.
\<close>

theorem pending_count_counterexample:
  "pendingToolCalls
     (handle_all [ToolExecutionStart ''call-1'' ''weather'' ''{}'',
                  ToolExecutionComplete ''call-9'' ''ok'']
        (sendMessage ''s1'' ''hello'' None None module0)) = 0
   \<and> spec_pending_count [ToolExecutionStart ''call-1'' ''weather'' ''{}'',
                          ToolExecutionComplete ''call-9'' ''ok''] = 1"
  by (simp add: eval_defs spec_pending_count_def starts_def)

text \<open>
  C3, amended: a start adds one to the counter; a complete or error event, whatever its
  call id, takes one off and stops at 0; no other event changes it. So the counter is
  never negative, it is at least the number of starts minus the number of terminal
  events, and it is exactly that difference when no terminal event arrives while the
  counter is 0 (every prefix of the sequence has at least as many starts, plus the
  initial count, as terminal events). A complete or error event with an unknown call id
  is handled like any other and is forwarded under the raw call id.
\<close>

theorem pending_counter_saturating:
  "pendingToolCalls (handle (ToolExecutionStart i n a) s) = pendingToolCalls s + 1
   \<and> pendingToolCalls (handle (ToolExecutionComplete i r) s) = max 0 (pendingToolCalls s - 1)
   \<and> pendingToolCalls (handle (ToolExecutionError i err) s) = max 0 (pendingToolCalls s - 1)
   \<and> (start_id e = None \<and> terminal_id e = None \<longrightarrow>
        pendingToolCalls (handle e s) = pendingToolCalls s)
   \<and> (0 \<le> pendingToolCalls s \<longrightarrow> 0 \<le> pendingToolCalls (handle_all evs s))
   \<and> pendingToolCalls s + int (starts evs) - int (terminals evs)
        \<le> pendingToolCalls (handle_all evs s)
   \<and> ((\<forall>k \<le> length evs.
          int (terminals (take k evs)) \<le> pendingToolCalls s + int (starts (take k evs))) \<longrightarrow>
        pendingToolCalls (handle_all evs s)
          = pendingToolCalls s + int (starts evs) - int (terminals evs))
   \<and> (toolNameByCallId s i = None \<longrightarrow>
        calls (handle (ToolExecutionComplete i r) s) = calls s @ [OnToolResult i (ToolResult r) i]
        \<and> calls (handle (ToolExecutionError i err) s)
            = calls s @ [OnToolResult i (ToolFailure (or_else (or_empty err) TOOL_FAILED_MESSAGE)) i])"
proof -
  have names: "toolNameByCallId s i = None \<longrightarrow>
        calls (handle (ToolExecutionComplete i r) s) = calls s @ [OnToolResult i (ToolResult r) i]
        \<and> calls (handle (ToolExecutionError i err) s)
            = calls s @ [OnToolResult i (ToolFailure (or_else (or_empty err) TOOL_FAILED_MESSAGE)) i]"
    by (simp add: on_tool_complete_def on_tool_error_def display_name_def or_else_def
        or_empty_def emit_def Let_def)
  have one:
    "pendingToolCalls (handle (ToolExecutionStart i n a) s) = pendingToolCalls s + 1"
    "pendingToolCalls (handle (ToolExecutionComplete i r) s) = max 0 (pendingToolCalls s - 1)"
    "pendingToolCalls (handle (ToolExecutionError i err) s) = max 0 (pendingToolCalls s - 1)"
    by (simp_all add: on_tool_start_def on_tool_complete_def on_tool_error_def emit_def Let_def)
  have other: "start_id e = None \<and> terminal_id e = None \<longrightarrow>
        pendingToolCalls (handle e s) = pendingToolCalls s"
    using handle_pending [of e s] by simp
  show ?thesis
    using one other names pending_nonneg [of s evs] pending_lower_bound [of s evs]
      pending_exact [of evs s]
    by blast
qed

theorem pending_counter_saturating_witness:
  "start_id SessionIdle = None \<and> terminal_id SessionIdle = None
   \<and> 0 \<le> pendingToolCalls (sendMessage ''s1'' ''hello'' None None module0)
   \<and> toolNameByCallId (sendMessage ''s1'' ''hello'' None None module0) ''call-9'' = None
   \<and> length [ToolExecutionStart ''call-1'' ''weather'' ''{}'',
              ToolExecutionComplete ''call-1'' ''ok''] = 2
   \<and> int (terminals (take 0 [ToolExecutionStart ''call-1'' ''weather'' ''{}'',
                             ToolExecutionComplete ''call-1'' ''ok'']))
       \<le> pendingToolCalls (sendMessage ''s1'' ''hello'' None None module0)
          + int (starts (take 0 [ToolExecutionStart ''call-1'' ''weather'' ''{}'',
                                 ToolExecutionComplete ''call-1'' ''ok'']))
   \<and> int (terminals (take 1 [ToolExecutionStart ''call-1'' ''weather'' ''{}'',
                             ToolExecutionComplete ''call-1'' ''ok'']))
       \<le> pendingToolCalls (sendMessage ''s1'' ''hello'' None None module0)
          + int (starts (take 1 [ToolExecutionStart ''call-1'' ''weather'' ''{}'',
                                 ToolExecutionComplete ''call-1'' ''ok'']))
   \<and> int (terminals (take 2 [ToolExecutionStart ''call-1'' ''weather'' ''{}'',
                             ToolExecutionComplete ''call-1'' ''ok'']))
       \<le> pendingToolCalls (sendMessage ''s1'' ''hello'' None None module0)
          + int (starts (take 2 [ToolExecutionStart ''call-1'' ''weather'' ''{}'',
                                 ToolExecutionComplete ''call-1'' ''ok'']))
   \<and> pendingToolCalls
        (handle_all [ToolExecutionStart ''call-1'' ''weather'' ''{}'',
                     ToolExecutionComplete ''call-1'' ''ok'']
           (sendMessage ''s1'' ''hello'' None None module0)) = 0
   \<and> pendingToolCalls (handle SessionIdle (sendMessage ''s1'' ''hello'' None None module0)) = 0
   \<and> calls (handle (ToolExecutionComplete ''call-9'' ''ok'')
              (sendMessage ''s1'' ''hello'' None None module0))
       = [OnToolResult ''call-9'' (ToolResult ''ok'') ''call-9'']"
proof -
  let ?s = "sendMessage ''s1'' ''hello'' None None module0"
  let ?evs = "[ToolExecutionStart ''call-1'' ''weather'' ''{}'',
               ToolExecutionComplete ''call-1'' ''ok'']"
  have s: "pendingToolCalls ?s = 0" "toolNameByCallId ?s ''call-9'' = None" "calls ?s = []"
    by (simp_all add: sendMessage_def before_send_def fresh_def)
  have c: "starts ?evs = 1" "terminals ?evs = 1"
    by (simp_all add: starts_def terminals_def)
  have h: "\<forall>k \<le> length ?evs.
      int (terminals (take k ?evs)) \<le> pendingToolCalls ?s + int (starts (take k ?evs))"
  proof (intro allI impI)
    fix k :: nat
    assume "k \<le> length ?evs"
    then have "k = 0 \<or> k = 1 \<or> k = 2" by auto
    then show "int (terminals (take k ?evs)) \<le> pendingToolCalls ?s + int (starts (take k ?evs))"
      by (auto simp add: s starts_def terminals_def)
  qed
  have i: "start_id SessionIdle = None \<and> terminal_id SessionIdle = None"
    by simp
  have t: "pendingToolCalls (handle_all ?evs ?s) = 0"
    "pendingToolCalls (handle SessionIdle ?s) = 0"
    "calls (handle (ToolExecutionComplete ''call-9'' ''ok'') ?s)
       = [OnToolResult ''call-9'' (ToolResult ''ok'') ''call-9'']"
    using s c h i
      pending_counter_saturating [where s = ?s and evs = ?evs and e = SessionIdle
        and i = "''call-9''" and r = "''ok''"]
    by simp_all
  have "int (terminals (take 0 ?evs)) \<le> pendingToolCalls ?s + int (starts (take 0 ?evs))"
    "int (terminals (take 1 ?evs)) \<le> pendingToolCalls ?s + int (starts (take 1 ?evs))"
    "int (terminals (take 2 ?evs)) \<le> pendingToolCalls ?s + int (starts (take 2 ?evs))"
    by (simp_all add: s starts_def terminals_def)
  then show ?thesis
    using s i t by simp
qed

subsection \<open>Fallback streaming\<close>

declare chunks.simps [simp del]

lemma chunks_Nil: "chunks n [] = []"
  by (simp add: chunks.simps)

lemma chunks_step: "0 < n \<Longrightarrow> xs \<noteq> [] \<Longrightarrow> chunks n xs = take n xs # chunks n (drop n xs)"
  by (subst chunks.simps) simp

lemma concat_chunks: "0 < n \<Longrightarrow> concat (chunks n xs) = xs"
proof (induction n xs rule: chunks.induct)
  case (1 n xs)
  show ?case
  proof (cases "xs = []")
    case True
    then show ?thesis by (simp add: chunks_Nil)
  next
    case False
    then show ?thesis using 1 by (simp add: chunks_step)
  qed
qed

lemma length_chunks: "0 < n \<Longrightarrow> length (chunks n xs) = (length xs + n - 1) div n"
proof (induction n xs rule: chunks.induct)
  case (1 n xs)
  show ?case
  proof (cases "xs = []")
    case True
    then show ?thesis using 1(2) by (simp add: chunks_Nil)
  next
    case False
    then have ih: "length (chunks n (drop n xs)) = (length (drop n xs) + n - 1) div n"
      using 1 by simp
    have split: "length xs + n - 1 = (length xs - 1) + n"
      using False by (cases xs) simp_all
    have "((length xs - 1) + n) div n = (length xs - 1) div n + 1"
      using 1(2) div_add_self2 [of n "length xs - 1"] by simp
    then have total: "(length xs + n - 1) div n = (length xs - 1) div n + 1"
      by (simp only: split)
    show ?thesis
    proof (cases "n \<le> length xs")
      case True
      then have "length (drop n xs) + n - 1 = length xs - 1" by simp
      then show ?thesis using False 1(2) ih total by (simp add: chunks_step)
    next
      case False
      then have "(length xs - 1) div n = 0" by simp
      then show ?thesis using False \<open>xs \<noteq> []\<close> 1(2) total by (simp add: chunks_step chunks_Nil)
    qed
  qed
qed

lemma nth_chunks:
  "0 < n \<Longrightarrow> k < length (chunks n xs) \<Longrightarrow> chunks n xs ! k = take n (drop (n * k) xs)"
proof (induction n xs arbitrary: k rule: chunks.induct)
  case (1 n xs)
  show ?case
  proof (cases "xs = []")
    case True
    then show ?thesis using 1(3) by (simp add: chunks_Nil)
  next
    case False
    note ne = this
    show ?thesis
    proof (cases k)
      case 0
      then show ?thesis using ne 1(2) by (simp add: chunks_step)
    next
      case (Suc j)
      then have "j < length (chunks n (drop n xs))"
        using 1(3) ne 1(2) by (simp add: chunks_step)
      then have "chunks n (drop n xs) ! j = take n (drop (n * j) (drop n xs))"
        using 1(1) [of j] ne 1(2) by simp
      then show ?thesis using Suc ne 1(2) by (simp add: chunks_step add.commute)
    qed
  qed
qed

lemma fallback_runs:
  assumes "k < length (fallbacks t)" and "fallbacks t ! k = (c, i)"
    and "\<not> completed t" and "fullContent t = c"
  shows "calls (run (replicate (Suc (length (chunks chunkSize (drop (i + chunkSize) c))))
                       (Fires (FallbackTimer k))) t)
     = calls t @ map OnDelta (chunks chunkSize (drop (i + chunkSize) c)) @ [OnComplete c]"
  using assms
proof (induction "length c - i" arbitrary: t i rule: less_induct)
  case less
  let ?i' = "i + chunkSize"
  show ?case
  proof (cases "?i' < length c")
    case True
    let ?t' = "(emit (OnDelta (slice c ?i' (?i' + chunkSize))) t)
                 \<lparr>fallbacks := (fallbacks t)[k := (c, ?i')]\<rparr>"
    have st: "step (Fires (FallbackTimer k)) t = ?t'"
      using less.prems True by (simp add: on_fallback_timer_def Let_def)
    have ne: "drop ?i' c \<noteq> []" using True by simp
    have ch: "chunks chunkSize (drop ?i' c)
        = slice c ?i' (?i' + chunkSize) # chunks chunkSize (drop (?i' + chunkSize) c)"
      using chunks_step [OF _ ne, of chunkSize]
      by (simp add: chunkSize_def slice_def add.commute)
    have "length c - ?i' < length c - i"
      using True by (simp add: chunkSize_def)
    moreover have "k < length (fallbacks ?t')" "fallbacks ?t' ! k = (c, ?i')"
      "\<not> completed ?t'" "fullContent ?t' = c"
      using less.prems by (simp_all add: emit_def)
    ultimately have ih: "calls (run (replicate
          (Suc (length (chunks chunkSize (drop (?i' + chunkSize) c)))) (Fires (FallbackTimer k))) ?t')
        = calls ?t' @ map OnDelta (chunks chunkSize (drop (?i' + chunkSize) c)) @ [OnComplete c]"
      by (rule less.hyps)
    have "calls ?t' = calls t @ [OnDelta (slice c ?i' (?i' + chunkSize))]"
      by (simp add: emit_def)
    then show ?thesis
      using ih st by (simp add: ch del: step.simps)
  next
    case False
    then have "chunks chunkSize (drop ?i' c) = []"
      by (simp add: chunks_Nil)
    moreover have "calls (step (Fires (FallbackTimer k)) t) = calls t @ [OnComplete c]"
      using less.prems False by (simp add: on_fallback_timer_def Let_def finalize_calls)
    ultimately show ?thesis by (simp del: step.simps)
  qed
qed

text \<open>
  Left to itself, the fallback does what it is written for. If the \<open>assistant.message\<close>
  event arrives with non-empty content while no delta was seen, no tool call is pending
  and no completion has fired, and only the timers of this fallback are handled until it
  ends, the caller receives the chunks of the content as \<open>onDelta\<close> calls and then one
  \<open>onComplete\<close> with the content. The chunks number \<open>\<lceil>len/24\<rceil>\<close>, chunk \<open>k\<close> is
  \<open>content.slice(24k, 24k + 24)\<close> (24 units, the last one possibly shorter), and together
  they spell the content.
\<close>

theorem fallback_streaming:
  "(c \<noteq> [] \<and> \<not> hasDelta s \<and> pendingToolCalls s = 0 \<and> listening s \<and> \<not> completed s \<longrightarrow>
      calls (run (Runtime (AssistantMessage (Some c) reqs)
                  # replicate (length (chunks chunkSize c))
                      (Fires (FallbackTimer (length (fallbacks s))))) s)
        = calls s @ map OnDelta (chunks chunkSize c) @ [OnComplete c])
   \<and> chunkSize = 24
   \<and> length (chunks chunkSize c) = (length c + 23) div 24
   \<and> concat (chunks chunkSize c) = c
   \<and> (\<forall>k < length (chunks chunkSize c). chunks chunkSize c ! k = take 24 (drop (24 * k) c))"
proof -
  have run: "calls (run (Runtime (AssistantMessage (Some c) reqs)
                  # replicate (length (chunks chunkSize c))
                      (Fires (FallbackTimer (length (fallbacks s))))) s)
        = calls s @ map OnDelta (chunks chunkSize c) @ [OnComplete c]"
    if h: "c \<noteq> []" "\<not> hasDelta s" "pendingToolCalls s = 0" "listening s" "\<not> completed s"
  proof -
    let ?k = "length (fallbacks s)"
    let ?t = "(emit (OnDelta (slice c 0 (0 + chunkSize))) (s\<lparr>fullContent := c\<rparr>))
                \<lparr>fallbacks := fallbacks s @ [(c, 0)]\<rparr>"
    have st: "step (Runtime (AssistantMessage (Some c) reqs)) s = ?t"
      using h
      by (simp add: on_assistant_message_def streamFallback_def or_empty_def emit_def Let_def
          split: option.splits)
    have ch: "chunks chunkSize c = slice c 0 (0 + chunkSize) # chunks chunkSize (drop (0 + chunkSize) c)"
      using chunks_step [of chunkSize c] h(1) by (simp add: chunkSize_def slice_def)
    have "?k < length (fallbacks ?t)" "fallbacks ?t ! ?k = (c, 0)" "\<not> completed ?t"
      "fullContent ?t = c"
      using h by (simp_all add: emit_def)
    then have "calls (run (replicate (Suc (length (chunks chunkSize (drop (0 + chunkSize) c))))
                       (Fires (FallbackTimer ?k))) ?t)
        = calls ?t @ map OnDelta (chunks chunkSize (drop (0 + chunkSize) c)) @ [OnComplete c]"
      by (rule fallback_runs)
    moreover have "calls ?t = calls s @ [OnDelta (slice c 0 (0 + chunkSize))]"
      by (simp add: emit_def)
    moreover have "length (chunks chunkSize c)
        = Suc (length (chunks chunkSize (drop (0 + chunkSize) c)))"
      by (subst ch) simp
    moreover have "map OnDelta (chunks chunkSize c)
        = OnDelta (slice c 0 (0 + chunkSize))
            # map OnDelta (chunks chunkSize (drop (0 + chunkSize) c))"
      by (subst ch) simp
    ultimately show ?thesis
      using st by (simp del: step.simps replicate.simps)
  qed
  have len: "length (chunks chunkSize c) = (length c + 23) div 24"
    using length_chunks [of chunkSize c] by (simp add: chunkSize_def)
  have cat: "concat (chunks chunkSize c) = c"
    using concat_chunks [of chunkSize c] by (simp add: chunkSize_def)
  have nth: "\<forall>k < length (chunks chunkSize c). chunks chunkSize c ! k = take 24 (drop (24 * k) c)"
    using nth_chunks [of chunkSize _ c] by (simp add: chunkSize_def)
  show ?thesis
    using run len cat nth chunkSize_def by blast
qed

theorem fallback_streaming_witness:
  "''abcdefghijklmnopqrstuvwxyz0123'' \<noteq> []
   \<and> \<not> hasDelta (sendMessage ''s1'' ''hello'' None None module0)
   \<and> pendingToolCalls (sendMessage ''s1'' ''hello'' None None module0) = 0
   \<and> listening (sendMessage ''s1'' ''hello'' None None module0)
   \<and> \<not> completed (sendMessage ''s1'' ''hello'' None None module0)
   \<and> chunks chunkSize ''abcdefghijklmnopqrstuvwxyz0123'' = [''abcdefghijklmnopqrstuvwx'', ''yz0123'']
   \<and> 1 < length (chunks chunkSize ''abcdefghijklmnopqrstuvwxyz0123'')
   \<and> take 24 (drop (24 * 1) ''abcdefghijklmnopqrstuvwxyz0123'') = ''yz0123''
   \<and> calls (run [Runtime (AssistantMessage (Some ''abcdefghijklmnopqrstuvwxyz0123'') None),
                  Fires (FallbackTimer 0), Fires (FallbackTimer 0)]
               (sendMessage ''s1'' ''hello'' None None module0))
       = [OnDelta ''abcdefghijklmnopqrstuvwx'', OnDelta ''yz0123'',
          OnComplete ''abcdefghijklmnopqrstuvwxyz0123'']"
proof -
  let ?s = "sendMessage ''s1'' ''hello'' None None module0"
  let ?c = "''abcdefghijklmnopqrstuvwxyz0123''"
  have s: "\<not> hasDelta ?s" "pendingToolCalls ?s = 0" "listening ?s" "\<not> completed ?s"
    "fallbacks ?s = []" "calls ?s = []"
    by (simp_all add: sendMessage_def before_send_def fresh_def)
  have ch: "chunks chunkSize ?c = [''abcdefghijklmnopqrstuvwx'', ''yz0123'']"
    by (simp add: chunks.simps chunkSize_def)
  have "calls (run (Runtime (AssistantMessage (Some ?c) None)
                  # replicate (length (chunks chunkSize ?c))
                      (Fires (FallbackTimer (length (fallbacks ?s))))) ?s)
        = calls ?s @ map OnDelta (chunks chunkSize ?c) @ [OnComplete ?c]"
    using s fallback_streaming [of ?c ?s None] by blast
  then have "calls (run [Runtime (AssistantMessage (Some ?c) None),
                  Fires (FallbackTimer 0), Fires (FallbackTimer 0)] ?s)
       = [OnDelta ''abcdefghijklmnopqrstuvwx'', OnDelta ''yz0123'', OnComplete ?c]"
    by (simp add: ch s numeral_2_eq_2 del: step.simps run.simps)
  moreover have "1 < length (chunks chunkSize ?c)"
    by (simp add: ch)
  then have "take 24 (drop (24 * 1) ?c) = chunks chunkSize ?c ! 1"
    using fallback_streaming [of ?c ?s None] by simp
  then have "take 24 (drop (24 * 1) ?c) = ''yz0123''"
    by (simp only: ch nth_Cons_0 nth_Cons_Suc One_nat_def)
  ultimately show ?thesis using s ch by simp
qed

text \<open>
  C4: a terminal \<open>assistant.message\<close> event with non-empty content, no delta seen and no
  tool call pending gives the caller the \<open>\<lceil>len/24\<rceil>\<close> chunks of the content and then one
  \<open>onComplete\<close> with that content. The handler chains \<open>finalize\<close> after the last chunk
  (\<open>streamFallback(content).then(() => finalize(fullContent))\<close>), but the chunks after the
  first are sent from 15 ms timers and the \<open>session.idle\<close> handler, meant as the completion
  signal of an exchange without \<open>assistant.message\<close>, does not wait for them. On the
  runtime's usual schedule, \<open>session.idle\<close> right after the message, a 30-unit content
  gives the first chunk, then \<open>onComplete\<close>, then the second chunk.
\<close>

theorem idle_overtakes_fallback:
  "calls (run [Runtime (AssistantMessage (Some ''abcdefghijklmnopqrstuvwxyz0123'') None),
               Runtime SessionIdle, Fires (FallbackTimer 0), Fires (FallbackTimer 0)]
            (sendMessage ''s1'' ''hello'' None None module0))
     = [OnDelta ''abcdefghijklmnopqrstuvwx'', OnComplete ''abcdefghijklmnopqrstuvwxyz0123'',
        OnDelta ''yz0123'']"
  by (simp add: eval_defs)

subsection \<open>The terminal signal\<close>

text \<open>
  C1: every exchange gives its caller exactly one terminal signal, \<open>onComplete\<close> or
  \<open>onError\<close>, never both. \<open>finalize\<close>, the \<open>session.idle\<close> handler and the timeout callback
  all test the latch \<open>completed\<close>; the \<open>session.error\<close> handler neither tests nor sets it.
  Two event sequences on which the caller gets both signals: a session error inside the
  100 ms between a completion and the cleanup it schedules, and a session error while a
  fallback is streaming, whose \<open>finalize\<close> then still fires.
\<close>

theorem session_error_double_signal:
  "calls (run [Runtime (MessageDelta (Some ''hi'')),
               Runtime (AssistantMessage (Some ''hi'') None),
               Runtime (SessionError (Some ''boom''))]
            (sendMessage ''s1'' ''hello'' None None module0))
     = [OnDelta ''hi'', OnComplete ''hi'', OnError (Error ''boom'')]
   \<and> filter is_terminal_signal
        (calls (run [Runtime (MessageDelta (Some ''hi'')),
                     Runtime (AssistantMessage (Some ''hi'') None),
                     Runtime (SessionError (Some ''boom''))]
                  (sendMessage ''s1'' ''hello'' None None module0)))
     = [OnComplete ''hi'', OnError (Error ''boom'')]
   \<and> calls (run [Runtime (AssistantMessage (Some ''hi'') None),
                  Runtime (SessionError (Some ''boom'')),
                  Fires (FallbackTimer 0)]
               (sendMessage ''s1'' ''hello'' None None module0))
     = [OnDelta ''hi'', OnError (Error ''boom''), OnComplete ''hi'']"
  by (simp add: eval_defs)

end
